theory Spec2Isabelle
  imports Main
begin

section \<open>Characters and strings of the Python program\<close>

text \<open>
  The parser of \<^verbatim>\<open>nlp_parser.py\<close> works on Python \<^verbatim>\<open>str\<close> values.  A text is modelled
  as a list of code points below 256 (the type \<^typ>\<open>char\<close>); on these code points the
  classes \<^verbatim>\<open>\d\<close>, \<^verbatim>\<open>\s\<close>, \<^verbatim>\<open>\w\<close> of the module \<^verbatim>\<open>re\<close> and the methods
  \<^verbatim>\<open>str.lower\<close>, \<^verbatim>\<open>str.isupper\<close>, \<^verbatim>\<open>str.isspace\<close> are the sets and maps below.
  Python integers are unbounded and modelled by \<^typ>\<open>int\<close>; the conversion \<^verbatim>\<open>int()\<close> of
  a string is limited in the number of digits it accepts, as the interpreter limits it.
\<close>

definition code :: "char \<Rightarrow> nat" where
  "code c = of_char c"

definition is_digit :: "char \<Rightarrow> bool" where
  "is_digit c = (48 \<le> code c \<and> code c \<le> 57)"

definition is_space :: "char \<Rightarrow> bool" where
  "is_space c = (let n = code c in
     (9 \<le> n \<and> n \<le> 13) \<or> (28 \<le> n \<and> n \<le> 32) \<or> n = 133 \<or> n = 160)"

definition is_word :: "char \<Rightarrow> bool" where
  "is_word c = (let n = code c in
     (48 \<le> n \<and> n \<le> 57) \<or> (65 \<le> n \<and> n \<le> 90) \<or> n = 95 \<or> (97 \<le> n \<and> n \<le> 122) \<or>
     n = 170 \<or> n = 178 \<or> n = 179 \<or> n = 181 \<or> n = 185 \<or> n = 186 \<or>
     (188 \<le> n \<and> n \<le> 190) \<or> (192 \<le> n \<and> n \<le> 214) \<or> (216 \<le> n \<and> n \<le> 246) \<or>
     (248 \<le> n \<and> n \<le> 255))"

definition is_upper :: "char \<Rightarrow> bool" where
  "is_upper c = (let n = code c in
     (65 \<le> n \<and> n \<le> 90) \<or> (192 \<le> n \<and> n \<le> 214) \<or> (216 \<le> n \<and> n \<le> 222))"

definition py_lower :: "char \<Rightarrow> char" where
  "py_lower c = (let n = code c in
     if (65 \<le> n \<and> n \<le> 90) \<or> (192 \<le> n \<and> n \<le> 222 \<and> n \<noteq> 215) then char_of (n + 32) else c)"

text \<open>
  The upper-case partner of a character, as case-insensitive matching uses it.  The three
  lower-case letters of the range whose partner lies above 255 keep their value: no set
  of the patterns below contains them.
\<close>

definition py_upper :: "char \<Rightarrow> char" where
  "py_upper c = (let n = code c in
     if (97 \<le> n \<and> n \<le> 122) \<or> (224 \<le> n \<and> n \<le> 254 \<and> n \<noteq> 247) then char_of (n - 32) else c)"

definition lower :: "string \<Rightarrow> string" where
  "lower s = map py_lower s"

definition strip :: "string \<Rightarrow> string" where
  "strip s = rev (dropWhile is_space (rev (dropWhile is_space s)))"

text \<open>\<^verbatim>\<open>s.split()\<close>: the maximal runs of characters that are not white space.\<close>

function split :: "string \<Rightarrow> string list" where
  "split s =
     (let s' = dropWhile is_space s
      in if s' = [] then []
         else takeWhile (\<lambda>c. \<not> is_space c) s' # split (dropWhile (\<lambda>c. \<not> is_space c) s'))"
  by pat_completeness auto
termination
proof (relation "measure length")
  fix s s' :: string
  assume s': "s' = dropWhile is_space s" and ne: "s' \<noteq> []"
  have "\<not> is_space (hd s')"
    using s' ne hd_dropWhile by metis
  then have "dropWhile (\<lambda>c. \<not> is_space c) s' = dropWhile (\<lambda>c. \<not> is_space c) (tl s')"
    using ne by (cases s') simp_all
  then have "length (dropWhile (\<lambda>c. \<not> is_space c) s') =
      length (dropWhile (\<lambda>c. \<not> is_space c) (tl s'))"
    by simp
  also have "\<dots> \<le> length (tl s')"
    by (rule length_dropWhile_le)
  also have "\<dots> < length s'"
    using ne by (cases s') simp_all
  also have "\<dots> \<le> length s"
    using s' by (simp add: length_dropWhile_le)
  finally show "(dropWhile (\<lambda>c. \<not> is_space c) s', s) \<in> measure length"
    by simp
qed simp

declare split.simps [simp del]

fun join :: "string \<Rightarrow> string list \<Rightarrow> string" where
  "join sep [] = []"
| "join sep [x] = x"
| "join sep (x # y # zs) = x @ sep @ join sep (y # zs)"

subsection \<open>Exceptions, and the conversions that can raise them\<close>

datatype error = ValueError | OverflowError | TypeError | IndexError | AttributeError

text \<open>Sequencing of two computations that may raise.\<close>

definition ebind :: "error + 'a \<Rightarrow> ('a \<Rightarrow> error + 'b) \<Rightarrow> error + 'b" where
  "ebind x f = (case x of Inl e \<Rightarrow> Inl e | Inr v \<Rightarrow> f v)"

definition digit_val :: "char \<Rightarrow> int" where
  "digit_val c = int (code c) - 48"

text \<open>
  \<^verbatim>\<open>sys.get_int_max_str_digits()\<close>, at its default: \<^verbatim>\<open>int()\<close> raises \<^verbatim>\<open>ValueError\<close> on
  a string of more decimal digits (leading zeros count).
\<close>

definition int_max_str_digits :: nat where
  "int_max_str_digits = 4300"

text \<open>
  \<^verbatim>\<open>int(s)\<close> on a string of decimal digits.  Only strings captured by a digit group
  reach it in this program; every other string is taken to raise \<^verbatim>\<open>ValueError\<close>.
\<close>

definition py_int :: "string \<Rightarrow> error + int" where
  "py_int s =
     (if s \<noteq> [] \<and> list_all is_digit s \<and> length s \<le> int_max_str_digits
      then Inr (foldl (\<lambda>a c. 10 * a + digit_val c) 0 s)
      else Inl ValueError)"

function dec :: "nat \<Rightarrow> string" where
  "dec n = (if n < 10 then [''0123456789'' ! n] else dec (n div 10) @ [''0123456789'' ! (n mod 10)])"
  by pat_completeness auto
termination
  by (relation "measure id") auto

declare dec.simps [simp del]

text \<open>The format \<^verbatim>\<open>{n:02d}\<close>: the decimal digits, padded with zeros to two characters.\<close>

definition fmt02 :: "int \<Rightarrow> string" where
  "fmt02 n =
     (let s = (if n < 0 then CHR ''-'' # dec (nat (- n)) else dec (nat n))
      in replicate (2 - length s) CHR ''0'' @ s)"

section \<open>Regular expressions with the backtracking order of the module re\<close>

text \<open>
  A pattern is a value of type \<open>rx\<close>; \<open>ms\<close> lists, in the order in which a backtracking
  matcher tries them, all the ways a pattern can match at a position.  The head of that
  list is the match the module \<^verbatim>\<open>re\<close> reports there.  A position is the character
  before it (needed by \<^verbatim>\<open>\b\<close> and by a look-behind), the text after it, and the groups
  captured so far.
\<close>

datatype atom = Ch char | Rg char char | Dg | Sp

fun in_atom :: "atom \<Rightarrow> char \<Rightarrow> bool" where
  "in_atom (Ch a) c = (c = a)"
| "in_atom (Rg a b) c = (code a \<le> code c \<and> code c \<le> code b)"
| "in_atom Dg c = is_digit c"
| "in_atom Sp c = is_space c"

text \<open>Membership in a character set; \<open>ic\<close> is the flag \<^verbatim>\<open>re.IGNORECASE\<close>.\<close>

definition in_cset :: "bool \<Rightarrow> atom list \<Rightarrow> char \<Rightarrow> bool" where
  "in_cset ic cs c =
     (if ic then list_ex (\<lambda>a. in_atom a (py_lower c) \<or> in_atom a (py_upper c)) cs
      else list_ex (\<lambda>a. in_atom a c) cs)"

datatype rx =
    Eps
  | One "atom list"
  | Rep "atom list" nat "nat option" bool
  | Seq rx rx
  | Alt rx rx
  | Opt rx
  | Grp nat rx
  | WordB
  | Eos
  | NotBehind "atom list"
  | NotAhead rx

type_synonym groups = "nat \<rightharpoonup> string"

type_synonym mstate = "char option \<times> string \<times> groups"

fun run_len :: "bool \<Rightarrow> atom list \<Rightarrow> nat option \<Rightarrow> string \<Rightarrow> nat" where
  "run_len ic cs hi [] = 0"
| "run_len ic cs hi (c # r) =
     (if hi = Some 0 \<or> \<not> in_cset ic cs c then 0
      else Suc (run_len ic cs (map_option (\<lambda>h. h - 1) hi) r))"

fun adv :: "nat \<Rightarrow> mstate \<Rightarrow> mstate" where
  "adv 0 s = s"
| "adv (Suc n) (p, [], g) = (p, [], g)"
| "adv (Suc n) (p, c # r, g) = adv n (Some c, r, g)"

definition word_at :: "char option \<Rightarrow> bool" where
  "word_at p = (case p of None \<Rightarrow> False | Some c \<Rightarrow> is_word c)"

definition nxt :: "string \<Rightarrow> char option" where
  "nxt r = (case r of [] \<Rightarrow> None | c # _ \<Rightarrow> Some c)"

text \<open>
  \<open>One cs\<close> is a character of the set \<open>cs\<close>; \<open>Rep cs lo hi greedy\<close> is \<open>lo\<close> to \<open>hi\<close>
  characters of the set, the longest run first when greedy and the shortest first when
  lazy; \<open>Opt\<close> is the greedy \<^verbatim>\<open>?\<close>; \<open>Grp n\<close> is the capturing group \<open>n\<close>; \<open>WordB\<close> is
  \<^verbatim>\<open>\b\<close>; \<open>Eos\<close> is \<^verbatim>\<open>$\<close> without \<^verbatim>\<open>re.MULTILINE\<close> (the end of the text, or the place
  before a final newline); \<open>NotBehind\<close> is \<^verbatim>\<open>(?<![...])\<close> and \<open>NotAhead\<close> is \<^verbatim>\<open>(?!...)\<close>.
\<close>

fun ms :: "bool \<Rightarrow> rx \<Rightarrow> mstate \<Rightarrow> mstate list" where
  "ms ic Eps s = [s]"
| "ms ic (One cs) (p, r, g) =
     (case r of [] \<Rightarrow> [] | c # r' \<Rightarrow> if in_cset ic cs c then [(Some c, r', g)] else [])"
| "ms ic (Rep cs lo hi greedy) s =
     (let k = run_len ic cs hi (fst (snd s));
          ns = (if greedy then rev [lo..<Suc k] else [lo..<Suc k])
      in map (\<lambda>n. adv n s) ns)"
| "ms ic (Seq a b) s = concat (map (ms ic b) (ms ic a s))"
| "ms ic (Alt a b) s = ms ic a s @ ms ic b s"
| "ms ic (Opt a) s = ms ic a s @ [s]"
| "ms ic (Grp n a) (p, r, g) =
     map (\<lambda>(p', r', g'). (p', r', g'(n \<mapsto> take (length r - length r') r))) (ms ic a (p, r, g))"
| "ms ic WordB (p, r, g) = (if word_at p \<noteq> word_at (nxt r) then [(p, r, g)] else [])"
| "ms ic Eos (p, r, g) = (if r = [] \<or> r = [CHR 0x0A] then [(p, r, g)] else [])"
| "ms ic (NotBehind cs) (p, r, g) =
     (case p of None \<Rightarrow> [(p, r, g)] | Some c \<Rightarrow> if in_cset ic cs c then [] else [(p, r, g)])"
| "ms ic (NotAhead a) s = (if ms ic a s = [] then [s] else [])"

definition cat :: "rx list \<Rightarrow> rx" where
  "cat rs = foldr Seq rs Eps"

definition alts :: "rx list \<Rightarrow> rx" where
  "alts rs = foldr Alt (butlast rs) (last rs)"

definition lit :: "string \<Rightarrow> rx" where
  "lit s = cat (map (\<lambda>c. One [Ch c]) s)"

text \<open>
  \<^verbatim>\<open>re.search\<close>: the first match at the leftmost position that has one.  The result is
  the match object, here the map from group numbers to the captured strings.
\<close>

fun search_from :: "bool \<Rightarrow> rx \<Rightarrow> char option \<Rightarrow> string \<Rightarrow> groups option" where
  "search_from ic r p [] =
     (case ms ic r (p, [], Map.empty) of [] \<Rightarrow> None | (_, _, g) # _ \<Rightarrow> Some g)"
| "search_from ic r p (c # cs) =
     (case ms ic r (p, c # cs, Map.empty) of
        [] \<Rightarrow> search_from ic r (Some c) cs
      | (_, _, g) # _ \<Rightarrow> Some g)"

definition re_search :: "bool \<Rightarrow> rx \<Rightarrow> string \<Rightarrow> groups option" where
  "re_search ic r t = search_from ic r None t"

text \<open>
  \<^verbatim>\<open>re.sub(pattern, "", text)\<close>: the text without its non-overlapping matches, found
  from left to right.  An empty match removes nothing and the scan moves on by one
  character.
\<close>

function sub_from :: "bool \<Rightarrow> rx \<Rightarrow> char option \<Rightarrow> string \<Rightarrow> string" where
  "sub_from ic r p t =
     (case ms ic r (p, t, Map.empty) of
        [] \<Rightarrow> (case t of [] \<Rightarrow> [] | c # cs \<Rightarrow> c # sub_from ic r (Some c) cs)
      | (p', t', _) # _ \<Rightarrow>
          if length t' < length t then sub_from ic r p' t'
          else (case t of [] \<Rightarrow> [] | c # cs \<Rightarrow> c # sub_from ic r (Some c) cs))"
  by pat_completeness auto
termination
  by (relation "measure (\<lambda>(ic, r, p, t). length t)") auto

declare sub_from.simps [simp del]

definition re_sub_empty :: "bool \<Rightarrow> rx \<Rightarrow> string \<Rightarrow> string" where
  "re_sub_empty ic r t = sub_from ic r None t"

text \<open>\<^verbatim>\<open>re.findall\<close> for a pattern without groups: the matched strings, left to right.\<close>

function findall_from :: "bool \<Rightarrow> rx \<Rightarrow> char option \<Rightarrow> string \<Rightarrow> string list" where
  "findall_from ic r p t =
     (case ms ic r (p, t, Map.empty) of
        [] \<Rightarrow> (case t of [] \<Rightarrow> [] | c # cs \<Rightarrow> findall_from ic r (Some c) cs)
      | (p', t', _) # _ \<Rightarrow>
          if length t' < length t
          then take (length t - length t') t # findall_from ic r p' t'
          else [] # (case t of [] \<Rightarrow> [] | c # cs \<Rightarrow> findall_from ic r (Some c) cs))"
  by pat_completeness auto
termination
  by (relation "measure (\<lambda>(ic, r, p, t). length t)") auto

declare findall_from.simps [simp del]

definition re_findall :: "bool \<Rightarrow> rx \<Rightarrow> string \<Rightarrow> string list" where
  "re_findall ic r t = findall_from ic r None t"

text \<open>\<^verbatim>\<open>int(m.group(k))\<close>; a group that took no part in the match is \<^verbatim>\<open>None\<close>.\<close>

definition group_int :: "groups \<Rightarrow> nat \<Rightarrow> error + int" where
  "group_int g k = (case g k of None \<Rightarrow> Inl TypeError | Some s \<Rightarrow> py_int s)"

section \<open>Calendar dates\<close>

text \<open>
  The class \<^verbatim>\<open>datetime.date\<close>: a year from 1 to 9999, a month and a day of that month.
  \<open>mk_date\<close> is the constructor \<^verbatim>\<open>date(y, m, d)\<close>, which raises \<^verbatim>\<open>ValueError\<close> outside
  the calendar; \<open>add_days\<close> is \<^verbatim>\<open>d + timedelta(days=n)\<close> for \<open>n \<ge> 0\<close>, which raises
  \<^verbatim>\<open>OverflowError\<close> past the last day of year 9999; \<open>weekday\<close> is \<^verbatim>\<open>date.weekday()\<close>,
  Monday being 0, computed from the proleptic Gregorian ordinal as the library does.
\<close>

datatype date = Date (year: int) (month: int) (day: int)

definition is_leap :: "int \<Rightarrow> bool" where
  "is_leap y = (y mod 4 = 0 \<and> (y mod 100 \<noteq> 0 \<or> y mod 400 = 0))"

definition days_in_month :: "int \<Rightarrow> int \<Rightarrow> int" where
  "days_in_month y m =
     (if m = 2 then (if is_leap y then 29 else 28)
      else if m = 4 \<or> m = 6 \<or> m = 9 \<or> m = 11 then 30 else 31)"

definition valid_date :: "date \<Rightarrow> bool" where
  "valid_date d = (1 \<le> year d \<and> year d \<le> 9999 \<and> 1 \<le> month d \<and> month d \<le> 12 \<and>
     1 \<le> day d \<and> day d \<le> days_in_month (year d) (month d))"

definition mk_date :: "int \<Rightarrow> int \<Rightarrow> int \<Rightarrow> error + date" where
  "mk_date y m d = (if valid_date (Date y m d) then Inr (Date y m d) else Inl ValueError)"

definition date_less :: "date \<Rightarrow> date \<Rightarrow> bool" where
  "date_less a b = (year a < year b \<or> (year a = year b \<and>
     (month a < month b \<or> (month a = month b \<and> day a < day b))))"

definition next_day :: "date \<Rightarrow> error + date" where
  "next_day d =
     (if day d < days_in_month (year d) (month d) then Inr (Date (year d) (month d) (day d + 1))
      else if month d < 12 then Inr (Date (year d) (month d + 1) 1)
      else if year d < 9999 then Inr (Date (year d + 1) 1 1)
      else Inl OverflowError)"

fun add_days :: "date \<Rightarrow> nat \<Rightarrow> error + date" where
  "add_days d 0 = Inr d"
| "add_days d (Suc n) = (case next_day d of Inl e \<Rightarrow> Inl e | Inr d' \<Rightarrow> add_days d' n)"

definition days_before_year :: "int \<Rightarrow> int" where
  "days_before_year y = (y - 1) * 365 + (y - 1) div 4 - (y - 1) div 100 + (y - 1) div 400"

definition days_before_month :: "int \<Rightarrow> int \<Rightarrow> int" where
  "days_before_month y m =
     [0, 31, 59, 90, 120, 151, 181, 212, 243, 273, 304, 334] ! nat (m - 1) +
     (if 2 < m \<and> is_leap y then 1 else 0)"

definition toordinal :: "date \<Rightarrow> int" where
  "toordinal d = days_before_year (year d) + days_before_month (year d) (month d) + day d"

definition weekday :: "date \<Rightarrow> int" where
  "weekday d = (toordinal d + 6) mod 7"

text \<open>
  Of the class \<^verbatim>\<open>datetime.datetime\<close> the parser uses the method \<^verbatim>\<open>date()\<close> alone.
  The other four fields are the hour, the minute, the second and the microsecond.
\<close>

datatype datetime = Datetime (the_date: date) int int int int

section \<open>The parser of nlp_parser.py\<close>

text \<open>
  The names are those of the source without the leading underscore, which an Isabelle
  name cannot start with.
\<close>

record ParsedRequest =
  restaurant_name :: string
  date :: "date option"
  time_str :: string
  party_size :: int
  raw :: string

definition WEEKDAY_MAP :: "(string \<times> int) list" where
  "WEEKDAY_MAP =
     [(''monday'', 0), (''mon'', 0),
      (''tuesday'', 1), (''tue'', 1), (''tues'', 1),
      (''wednesday'', 2), (''wed'', 2),
      (''thursday'', 3), (''thu'', 3), (''thur'', 3), (''thurs'', 3),
      (''friday'', 4), (''fri'', 4),
      (''saturday'', 5), (''sat'', 5),
      (''sunday'', 6), (''sun'', 6)]"

definition MONTH_MAP :: "(string \<times> int) list" where
  "MONTH_MAP =
     [(''january'', 1), (''jan'', 1),
      (''february'', 2), (''feb'', 2),
      (''march'', 3), (''mar'', 3),
      (''april'', 4), (''apr'', 4),
      (''may'', 5),
      (''june'', 6), (''jun'', 6),
      (''july'', 7), (''jul'', 7),
      (''august'', 8), (''aug'', 8),
      (''september'', 9), (''sep'', 9), (''sept'', 9),
      (''october'', 10), (''oct'', 10),
      (''november'', 11), (''nov'', 11),
      (''december'', 12), (''dec'', 12)]"

definition NOISE_WORDS :: "string list" where
  "NOISE_WORDS =
     [''book'', ''reserve'', ''make'', ''a'', ''table'', ''reservation'', ''for'', ''at'', ''in'',
      ''the'', ''restaurant'', ''tonight'', ''today'', ''tomorrow'', ''next'', ''people'',
      ''person'', ''guests'', ''guest'', ''pax'', ''dinner'', ''lunch'', ''breakfast'',
      ''brunch'', ''seats'', ''seat'', ''please'', ''me'', ''us'', ''want'', ''need'', ''get'',
      ''find'', ''search'', ''check'', ''monday'', ''tuesday'', ''wednesday'', ''thursday'',
      ''friday'', ''saturday'', ''sunday'', ''mon'', ''tue'', ''wed'', ''thu'', ''fri'', ''sat'',
      ''sun'', ''am'', ''pm'']"

text \<open>
  \<^verbatim>\<open>_today(now)\<close> is \<^verbatim>\<open>(now or datetime.now()).date()\<close>.  The reading of the wall
  clock is the argument \<open>clock\<close>.
\<close>

definition today :: "datetime \<Rightarrow> datetime option \<Rightarrow> date" where
  "today clock now = the_date (case now of None \<Rightarrow> clock | Some t \<Rightarrow> t)"

subsection \<open>Date extraction\<close>

definition tonight_pat :: rx where
  "tonight_pat = alts [cat [WordB, lit ''tonight'', WordB], cat [WordB, lit ''today'', WordB]]"

definition tomorrow_pat :: rx where
  "tomorrow_pat = cat [WordB, lit ''tomorrow'', WordB]"

definition weekday_pat :: "string \<Rightarrow> rx" where
  "weekday_pat name = cat [WordB, lit name, WordB]"

definition next_weekday_pat :: "string \<Rightarrow> rx" where
  "next_weekday_pat name = cat [WordB, lit ''next'', Rep [Sp] 1 None True, lit name, WordB]"

definition month_day_pat :: "string \<Rightarrow> rx" where
  "month_day_pat month_name =
     cat [WordB, lit month_name, Rep [Sp] 1 None True, Grp 1 (Rep [Dg] 1 (Some 2) True), WordB]"

definition day_month_pat :: "string \<Rightarrow> rx" where
  "day_month_pat month_name =
     cat [WordB, Grp 1 (Rep [Dg] 1 (Some 2) True), Rep [Sp] 1 None True, lit month_name, WordB]"

definition iso_pat :: rx where
  "iso_pat =
     cat [WordB, Grp 1 (Rep [Dg] 4 (Some 4) True), lit ''-'', Grp 2 (Rep [Dg] 2 (Some 2) True),
          lit ''-'', Grp 3 (Rep [Dg] 2 (Some 2) True), WordB]"

definition slash_pat :: rx where
  "slash_pat =
     cat [WordB, Grp 1 (Rep [Dg] 1 (Some 2) True), One [Ch CHR ''/'', Ch CHR ''-''],
          Grp 2 (Rep [Dg] 1 (Some 2) True), WordB]"

text \<open>
  The loops of \<^verbatim>\<open>_parse_date\<close> return from the function, raise, or finish and let the
  code after them run; a loop's result is \<open>Some\<close> of the returned date or of the exception,
  and \<open>None\<close> when it finishes.
\<close>

fun weekday_loop :: "(string \<times> int) list \<Rightarrow> string \<Rightarrow> date \<Rightarrow> (error + date) option" where
  "weekday_loop [] low tday = None"
| "weekday_loop ((name, weekday_num) # rest) low tday =
     (if re_search False (weekday_pat name) low \<noteq> None then
        let days_ahead = (weekday_num - weekday tday) mod 7;
            days_ahead =
              (if re_search False (next_weekday_pat name) low \<noteq> None
               then (if days_ahead = 0 then 7 else days_ahead)
               else (if days_ahead = 0 then 7 else days_ahead))
        in Some (add_days tday (nat days_ahead))
      else weekday_loop rest low tday)"

fun month_loop :: "(string \<times> int) list \<Rightarrow> string \<Rightarrow> date \<Rightarrow> (error + date) option" where
  "month_loop [] low tday = None"
| "month_loop ((month_name, month_num) # rest) low tday =
     (let m = (case re_search False (month_day_pat month_name) low of
                 None \<Rightarrow> re_search False (day_month_pat month_name) low
               | Some g \<Rightarrow> Some g)
      in case m of
           None \<Rightarrow> month_loop rest low tday
         | Some g \<Rightarrow>
             (case group_int g 1 of
                Inl e \<Rightarrow> Some (Inl e)
              | Inr dy \<Rightarrow>
                  (case mk_date (year tday) month_num dy of
                     Inl e \<Rightarrow> if e = ValueError then month_loop rest low tday else Some (Inl e)
                   | Inr d \<Rightarrow>
                       if date_less d tday then
                         (case mk_date (year tday + 1) month_num dy of
                            Inl e \<Rightarrow>
                              if e = ValueError then month_loop rest low tday else Some (Inl e)
                          | Inr d' \<Rightarrow> Some (Inr d'))
                       else Some (Inr d))))"

definition iso_rule :: "string \<Rightarrow> (error + date) option" where
  "iso_rule text =
     (case re_search False iso_pat text of
        None \<Rightarrow> None
      | Some g \<Rightarrow>
          (case ebind (group_int g 1) (\<lambda>y. ebind (group_int g 2) (\<lambda>m. ebind (group_int g 3)
                  (\<lambda>d. mk_date y m d))) of
             Inl e \<Rightarrow> if e = ValueError then None else Some (Inl e)
           | Inr d \<Rightarrow> Some (Inr d)))"

fun slash_loop :: "(int \<times> int) list \<Rightarrow> date \<Rightarrow> (error + date) option" where
  "slash_loop [] tday = None"
| "slash_loop ((mth, dy) # rest) tday =
     (if 1 \<le> mth \<and> mth \<le> 12 \<and> 1 \<le> dy \<and> dy \<le> 31 then
        (case mk_date (year tday) mth dy of
           Inl e \<Rightarrow> if e = ValueError then slash_loop rest tday else Some (Inl e)
         | Inr d \<Rightarrow>
             if date_less d tday then
               (case mk_date (year tday + 1) mth dy of
                  Inl e \<Rightarrow> if e = ValueError then slash_loop rest tday else Some (Inl e)
                | Inr d' \<Rightarrow> Some (Inr d'))
             else Some (Inr d))
      else slash_loop rest tday)"

definition slash_rule :: "string \<Rightarrow> date \<Rightarrow> (error + date) option" where
  "slash_rule text tday =
     (case re_search False slash_pat text of
        None \<Rightarrow> None
      | Some g \<Rightarrow>
          (case group_int g 1 of
             Inl e \<Rightarrow> Some (Inl e)
           | Inr a \<Rightarrow>
               (case group_int g 2 of
                  Inl e \<Rightarrow> Some (Inl e)
                | Inr b \<Rightarrow> slash_loop [(b, a), (a, b)] tday)))"

definition returned :: "error + date \<Rightarrow> error + date option" where
  "returned r = (case r of Inl e \<Rightarrow> Inl e | Inr d \<Rightarrow> Inr (Some d))"

definition parse_date :: "datetime \<Rightarrow> string \<Rightarrow> datetime option \<Rightarrow> error + date option" where
  "parse_date clock text now =
     (let tday = today clock now;
          low = lower text
      in if re_search False tonight_pat low \<noteq> None then Inr (Some tday)
         else if re_search False tomorrow_pat low \<noteq> None then returned (add_days tday 1)
         else case weekday_loop WEEKDAY_MAP low tday of
                Some r \<Rightarrow> returned r
              | None \<Rightarrow>
                  (case month_loop MONTH_MAP low tday of
                     Some r \<Rightarrow> returned r
                   | None \<Rightarrow>
                       (case iso_rule text of
                          Some r \<Rightarrow> returned r
                        | None \<Rightarrow>
                            (case slash_rule text tday of
                               Some r \<Rightarrow> returned r
                             | None \<Rightarrow> Inr None))))"

subsection \<open>Time extraction\<close>

definition iso_strip_pat :: rx where
  "iso_strip_pat =
     cat [WordB, Rep [Dg] 4 (Some 4) True, lit ''-'', Rep [Dg] 2 (Some 2) True, lit ''-'',
          Rep [Dg] 2 (Some 2) True, WordB]"

definition slash_strip_pat :: rx where
  "slash_strip_pat =
     cat [WordB, Rep [Dg] 1 (Some 2) True, One [Ch CHR ''/'', Ch CHR ''-''],
          Rep [Dg] 1 (Some 2) True, WordB]"

definition colon_pat :: rx where
  "colon_pat =
     cat [WordB, Grp 1 (Rep [Dg] 1 (Some 2) True), lit '':'', Grp 2 (Rep [Dg] 2 (Some 2) True),
          Opt (cat [lit '':'', Rep [Dg] 2 (Some 2) True]), Rep [Sp] 0 None True,
          Opt (Grp 3 (alts [lit ''am'', lit ''pm''])), WordB]"

definition bare_pat :: rx where
  "bare_pat =
     cat [WordB, Grp 1 (Rep [Dg] 1 (Some 2) True), Rep [Sp] 0 None True,
          Grp 2 (alts [lit ''am'', lit ''pm'']), WordB]"

text \<open>
  Step 1 of \<^verbatim>\<open>_parse_time\<close>, the colon form; \<open>Inr None\<close> when the code falls through
  to step 2.
\<close>

definition colon_rule :: "string \<Rightarrow> error + string option" where
  "colon_rule low =
     (case re_search True colon_pat low of
        None \<Rightarrow> Inr None
      | Some g \<Rightarrow>
          ebind (group_int g 1) (\<lambda>hour. ebind (group_int g 2) (\<lambda>minute.
            let meridiem = lower (case g 3 of None \<Rightarrow> [] | Some s \<Rightarrow> s);
                hour = (if meridiem = ''pm'' \<and> hour \<noteq> 12 then hour + 12
                        else if meridiem = ''am'' \<and> hour = 12 then 0 else hour)
            in if 0 \<le> hour \<and> hour \<le> 23 \<and> 0 \<le> minute \<and> minute \<le> 59
               then Inr (Some (fmt02 hour @ '':'' @ fmt02 minute))
               else Inr None)))"

text \<open>Step 2 of \<^verbatim>\<open>_parse_time\<close>, the bare hour with a meridiem, and the final return.\<close>

definition bare_rule :: "string \<Rightarrow> error + string" where
  "bare_rule low =
     (case re_search True bare_pat low of
        None \<Rightarrow> Inr []
      | Some g \<Rightarrow>
          ebind (group_int g 1) (\<lambda>hour.
            case g 2 of
              None \<Rightarrow> Inl AttributeError
            | Some s \<Rightarrow>
                let meridiem = lower s;
                    hour = (if meridiem = ''pm'' \<and> hour \<noteq> 12 then hour + 12
                            else if meridiem = ''am'' \<and> hour = 12 then 0 else hour)
                in if 0 \<le> hour \<and> hour \<le> 23 then Inr (fmt02 hour @ '':00'') else Inr []))"

definition parse_time :: "string \<Rightarrow> error + string" where
  "parse_time text =
     (let cleaned = re_sub_empty False iso_strip_pat text;
          cleaned = re_sub_empty False slash_strip_pat cleaned;
          low = lower cleaned
      in case colon_rule low of
           Inl e \<Rightarrow> Inl e
         | Inr (Some t) \<Rightarrow> Inr t
         | Inr None \<Rightarrow> bare_rule low)"

subsection \<open>Party-size extraction\<close>

definition patterns :: "rx list" where
  "patterns =
     [cat [lit ''for'', Rep [Sp] 1 None True, Grp 1 (Rep [Dg] 1 None True), Rep [Sp] 0 None True,
           Opt (alts [lit ''people'', lit ''person'', cat [lit ''guest'', Opt (lit ''s'')],
                      lit ''pax'', cat [lit ''seat'', Opt (lit ''s'')]])],
      cat [Grp 1 (Rep [Dg] 1 None True), Rep [Sp] 1 None True,
           alts [lit ''people'', cat [lit ''person'', Opt (lit ''s'')],
                 cat [lit ''guest'', Opt (lit ''s'')], lit ''pax'',
                 cat [lit ''seat'', Opt (lit ''s'')], cat [lit ''diner'', Opt (lit ''s'')]]],
      cat [lit ''party'', Rep [Sp] 1 None True, lit ''of'', Rep [Sp] 1 None True,
           Grp 1 (Rep [Dg] 1 None True)],
      cat [lit ''table'', Rep [Sp] 1 None True, lit ''for'', Rep [Sp] 1 None True,
           Grp 1 (Rep [Dg] 1 None True)]]"

definition time_strip_pat :: rx where
  "time_strip_pat =
     cat [WordB, Rep [Dg] 1 (Some 2) True, Opt (cat [lit '':'', Rep [Dg] 2 (Some 2) True]),
          Rep [Sp] 0 None True, alts [lit ''am'', lit ''pm''], WordB]"

definition lone_digit_pat :: rx where
  "lone_digit_pat =
     cat [NotBehind [Ch CHR '':'', Dg],
          Grp 1 (cat [WordB, One [Rg CHR ''2'' CHR ''9''], WordB]),
          NotAhead (One [Dg, Ch CHR '':''])]"

fun pattern_loop :: "rx list \<Rightarrow> string \<Rightarrow> (error + int) option" where
  "pattern_loop [] low = None"
| "pattern_loop (pat # rest) low =
     (case re_search False pat low of
        None \<Rightarrow> pattern_loop rest low
      | Some g \<Rightarrow>
          (case group_int g 1 of
             Inl e \<Rightarrow> Some (Inl e)
           | Inr n \<Rightarrow> if 1 \<le> n \<and> n \<le> 20 then Some (Inr n) else pattern_loop rest low))"

definition parse_party_size :: "string \<Rightarrow> error + int" where
  "parse_party_size text =
     (let low = lower text
      in case pattern_loop patterns low of
           Some r \<Rightarrow> r
         | None \<Rightarrow>
             (let stripped = re_sub_empty True time_strip_pat low
              in case re_search False lone_digit_pat stripped of
                   Some g \<Rightarrow> group_int g 1
                 | None \<Rightarrow> Inr 2))"

subsection \<open>Restaurant-name extraction\<close>

definition name_chars :: "atom list" where
  "name_chars = [Rg CHR ''A'' CHR ''Z'', Rg CHR ''a'' CHR ''z'', Ch CHR '' '', Ch CHR 0x27, Ch CHR ''-'']"

definition at_pat :: rx where
  "at_pat =
     cat [WordB, lit ''at'', Rep [Sp] 1 None True,
          Grp 1 (cat [One [Rg CHR ''A'' CHR ''Z'', Rg CHR ''a'' CHR ''z''], Rep name_chars 1 None False]),
          alts [cat [Rep [Sp] 0 None True, Eos],
                One [Ch CHR '','', Ch CHR ''.'', Ch CHR ''!'', Ch CHR ''?''],
                cat [Rep [Sp] 1 None True,
                     alts [lit ''on'', lit ''this'', lit ''next'', lit ''tonight'', lit ''tomorrow'',
                           One [Dg]]]]]"

definition in_pat :: rx where
  "in_pat =
     cat [WordB, lit ''in'', Rep [Sp] 1 None True,
          Grp 1 (cat [One [Rg CHR ''A'' CHR ''Z'', Rg CHR ''a'' CHR ''z''], Rep name_chars 1 None False]),
          alts [cat [Rep [Sp] 0 None True, Eos],
                One [Ch CHR '','', Ch CHR ''.'', Ch CHR ''!'', Ch CHR ''?'']]]"

definition word_pat :: rx where
  "word_pat = Rep [Rg CHR ''A'' CHR ''Z'', Rg CHR ''a'' CHR ''z'', Ch CHR 0x27, Ch CHR 0x27, Ch CHR ''-''] 1 None True"

text \<open>The loop of \<^verbatim>\<open>_clean_restaurant_name\<close>, which pops trailing noise words.\<close>

function pop_noise :: "string list \<Rightarrow> string list" where
  "pop_noise parts =
     (if parts \<noteq> [] \<and> lower (last parts) \<in> set NOISE_WORDS then pop_noise (butlast parts)
      else parts)"
  by pat_completeness auto
termination
  by (relation "measure length") auto

declare pop_noise.simps [simp del]

definition clean_restaurant_name :: "string \<Rightarrow> string" where
  "clean_restaurant_name name = join '' '' (pop_noise (split name))"

text \<open>The last loop of \<^verbatim>\<open>_parse_restaurant_name\<close>; \<^verbatim>\<open>word[0]\<close> raises on an empty word.\<close>

fun capitalised_loop :: "string list \<Rightarrow> string list \<Rightarrow> error + string list" where
  "capitalised_loop [] words = Inr words"
| "capitalised_loop (word # rest) words =
     (case word of
        [] \<Rightarrow> Inl IndexError
      | c # _ \<Rightarrow>
          capitalised_loop rest
            (if is_upper c \<and> lower word \<notin> set NOISE_WORDS then words @ [word] else words))"

definition capitalised_rule :: "string \<Rightarrow> error + string" where
  "capitalised_rule text =
     ebind (capitalised_loop (re_findall False word_pat text) [])
       (\<lambda>words. if words \<noteq> [] then Inr (join '' '' words) else Inr [])"

definition in_rule :: "string \<Rightarrow> error + string" where
  "in_rule text =
     (case re_search True in_pat text of
        None \<Rightarrow> capitalised_rule text
      | Some g \<Rightarrow>
          (case g 1 of
             None \<Rightarrow> Inl AttributeError
           | Some s \<Rightarrow>
               let name = strip s;
                   words = filter (\<lambda>w. lower w \<notin> set NOISE_WORDS) (split name)
               in if words \<noteq> [] then Inr (clean_restaurant_name (join '' '' words))
                  else capitalised_rule text))"

definition parse_restaurant_name :: "string \<Rightarrow> error + string" where
  "parse_restaurant_name text =
     (case re_search True at_pat text of
        None \<Rightarrow> in_rule text
      | Some g \<Rightarrow>
          (case g 1 of
             None \<Rightarrow> Inl AttributeError
           | Some s \<Rightarrow>
               let name = strip s
               in if lower name \<notin> set NOISE_WORDS then Inr (clean_restaurant_name name)
                  else in_rule text))"

subsection \<open>The entry point\<close>

definition parse_reservation_request ::
  "datetime \<Rightarrow> string \<Rightarrow> datetime option \<Rightarrow> error + ParsedRequest" where
  "parse_reservation_request clock text now =
     ebind (parse_date clock text now) (\<lambda>d.
     ebind (parse_time text) (\<lambda>t.
     ebind (parse_party_size text) (\<lambda>n.
     ebind (parse_restaurant_name text) (\<lambda>r.
       Inr \<lparr>restaurant_name = r, date = d, time_str = (if t = [] then ''20:00'' else t),
            party_size = n, raw = text\<rparr>))))"

section \<open>Notions used to state the properties\<close>

text \<open>
  The text names a weekday when the search for its name, between word boundaries,
  succeeds.
\<close>

definition names_weekday :: "string \<Rightarrow> string \<Rightarrow> bool" where
  "names_weekday low name = (re_search False (weekday_pat name) low \<noteq> None)"

text \<open>
  The rule for weekdays in the words of the specification: the number of days ahead is
  the difference of the weekdays modulo 7, and 7 when that is 0.
\<close>

definition spec_days_ahead :: "date \<Rightarrow> int \<Rightarrow> int" where
  "spec_days_ahead tday target =
     (let days_ahead = (target - weekday tday) mod 7 in if days_ahead = 0 then 7 else days_ahead)"

text \<open>
  An upper bound of what a pattern matches, and of what its groups capture: \<open>lang\<close>
  holds of every string a match of the pattern consumes, \<open>grp_lang\<close> of every string
  group \<open>n\<close> captures, and a pattern for which \<open>sets_grp\<close> holds captures group \<open>n\<close> in
  every match.
\<close>

fun lang :: "bool \<Rightarrow> rx \<Rightarrow> string \<Rightarrow> bool" where
  "lang ic Eps w = (w = [])"
| "lang ic (One cs) w = (\<exists>c. w = [c] \<and> in_cset ic cs c)"
| "lang ic (Rep cs lo hi greedy) w =
     (lo \<le> length w \<and> (case hi of None \<Rightarrow> True | Some h \<Rightarrow> length w \<le> h) \<and>
      list_all (in_cset ic cs) w)"
| "lang ic (Seq a b) w = (\<exists>u v. w = u @ v \<and> lang ic a u \<and> lang ic b v)"
| "lang ic (Alt a b) w = (lang ic a w \<or> lang ic b w)"
| "lang ic (Opt a) w = (w = [] \<or> lang ic a w)"
| "lang ic (Grp n a) w = lang ic a w"
| "lang ic WordB w = (w = [])"
| "lang ic Eos w = (w = [])"
| "lang ic (NotBehind cs) w = (w = [])"
| "lang ic (NotAhead a) w = (w = [])"

fun grp_lang :: "bool \<Rightarrow> rx \<Rightarrow> nat \<Rightarrow> string \<Rightarrow> bool" where
  "grp_lang ic (Grp m a) n w = ((m = n \<and> lang ic a w) \<or> grp_lang ic a n w)"
| "grp_lang ic (Seq a b) n w = (grp_lang ic a n w \<or> grp_lang ic b n w)"
| "grp_lang ic (Alt a b) n w = (grp_lang ic a n w \<or> grp_lang ic b n w)"
| "grp_lang ic (Opt a) n w = grp_lang ic a n w"
| "grp_lang ic r n w = False"

fun sets_grp :: "rx \<Rightarrow> nat \<Rightarrow> bool" where
  "sets_grp (Grp m a) n = (m = n \<or> sets_grp a n)"
| "sets_grp (Seq a b) n = (sets_grp a n \<or> sets_grp b n)"
| "sets_grp (Alt a b) n = (sets_grp a n \<and> sets_grp b n)"
| "sets_grp r n = False"

text \<open>
  The text the time patterns are searched in: the text without its ISO dates and numeric
  pairs, in lower case.
\<close>

definition time_text :: "string \<Rightarrow> string" where
  "time_text text =
     lower (re_sub_empty False slash_strip_pat (re_sub_empty False iso_strip_pat text))"

text \<open>
  The conversion to the 24-hour clock in the words of the specification: pm adds 12 hours
  unless the hour is 12, and am maps the hour 12 to 0.
\<close>

definition spec_to24 :: "int \<Rightarrow> string \<Rightarrow> int" where
  "spec_to24 hour meridiem =
     (if meridiem = ''pm'' then (if hour = 12 then hour else hour + 12)
      else if meridiem = ''am'' then (if hour = 12 then 0 else hour)
      else hour)"





text \<open>
  Trimming the trailing noise words, in the words of the specification: the words without
  the longest final run of words that are noise words when lower-cased.
\<close>

definition is_noise :: "string \<Rightarrow> bool" where
  "is_noise w = (lower w \<in> set NOISE_WORDS)"

definition spec_trim_trailing_noise :: "string list \<Rightarrow> string list" where
  "spec_trim_trailing_noise parts = rev (dropWhile is_noise (rev parts))"

definition is_letter :: "char \<Rightarrow> bool" where
  "is_letter c = ((65 \<le> code c \<and> code c \<le> 90) \<or> (97 \<le> code c \<and> code c \<le> 122))"

text \<open>A letter, a space, an apostrophe or a hyphen.\<close>

definition is_name_char :: "char \<Rightarrow> bool" where
  "is_name_char c = (is_letter c \<or> code c = 32 \<or> code c = 39 \<or> code c = 45)"


section \<open>The empty request\<close>

lemma parse_date_empty: "parse_date clock [] now = Inr None"
  by code_simp

lemma parse_time_empty: "parse_time [] = Inr []"
  by code_simp

lemma parse_party_size_empty: "parse_party_size [] = Inr 2"
  by code_simp

lemma parse_restaurant_name_empty: "parse_restaurant_name [] = Inr []"
  by code_simp

text \<open>
  C7.  Whatever the reference instant (and whatever the clock reads), the empty text is
  parsed, without an exception, to the record with an empty restaurant name, no date, the
  time 20:00 and a party of 2.
\<close>

theorem C7_empty_request:
  "parse_reservation_request clock [] now =
     Inr \<lparr>restaurant_name = [], date = None, time_str = ''20:00'', party_size = 2, raw = []\<rparr>"
  by (simp add: parse_reservation_request_def ebind_def parse_date_empty parse_time_empty
      parse_party_size_empty parse_restaurant_name_empty)

section \<open>Determinism\<close>

text \<open>
  C8.  The wall clock is an argument of the model, so that a dependence on it would show.
  When a reference instant is given, the outcome of the entry point (the record, or the
  exception) is the same whatever the clock reads: the text and the reference instant
  determine it.
\<close>

theorem C8_reference_instant_only_time_source:
  "parse_reservation_request clock1 text (Some t) = parse_reservation_request clock2 text (Some t)"
  by (simp add: parse_reservation_request_def parse_date_def today_def)

section \<open>What a match consumes and captures\<close>

lemma run_len_props:
  "n \<le> run_len ic cs hi r \<Longrightarrow>
     n \<le> length r \<and> list_all (in_cset ic cs) (take n r) \<and> (case hi of None \<Rightarrow> True | Some h \<Rightarrow> n \<le> h)"
proof (induction ic cs hi r arbitrary: n rule: run_len.induct)
  case (1 ic cs hi)
  then show ?case by (simp split: option.splits)
next
  case (2 ic cs hi c r)
  show ?case
  proof (cases n)
    case 0
    then show ?thesis by (simp split: option.splits)
  next
    case (Suc k)
    with "2.prems" have ok: "\<not> (hi = Some 0 \<or> \<not> in_cset ic cs c)"
      by (auto split: if_splits)
    with "2.prems" Suc have "k \<le> run_len ic cs (map_option (\<lambda>h. h - 1) hi) r"
      by simp
    from "2.IH" [OF ok this] ok Suc show ?thesis
      by (cases hi) auto
  qed
qed

lemma adv_drop: "n \<le> length r \<Longrightarrow> \<exists>p'. adv n (p, r, g) = (p', drop n r, g)"
proof (induction n arbitrary: p r)
  case 0
  then show ?case by simp
next
  case (Suc n)
  then show ?case by (cases r) auto
qed

lemma ms_Rep_elem:
  assumes "x \<in> set (ms ic (Rep cs lo hi greedy) (p, r0, g))"
  obtains n where "lo \<le> n" "n \<le> run_len ic cs hi r0" "x = adv n (p, r0, g)"
proof -
  from assms have "\<exists>n. lo \<le> n \<and> n \<le> run_len ic cs hi r0 \<and> x = adv n (p, r0, g)"
    by (cases greedy) (auto simp: Let_def)
  then show thesis using that by blast
qed

lemma ms_sound:
  "(p', r', g') \<in> set (ms ic r (p, r0, g)) \<Longrightarrow>
     (\<exists>w. r0 = w @ r' \<and> lang ic r w) \<and>
     (\<forall>n. g' n = g n \<or> (\<exists>w. g' n = Some w \<and> grp_lang ic r n w))"
proof (induction r arbitrary: p r0 g p' r' g')
  case Eps
  then show ?case by simp
next
  case (One cs)
  then show ?case by (auto split: list.splits if_splits)
next
  case (Rep cs lo hi greedy)
  then obtain n where n: "lo \<le> n" "n \<le> run_len ic cs hi r0" and a: "(p', r', g') = adv n (p, r0, g)"
    by (rule ms_Rep_elem)
  from run_len_props [OF n(2)] have le: "n \<le> length r0" and all: "list_all (in_cset ic cs) (take n r0)"
    and hi: "case hi of None \<Rightarrow> True | Some h \<Rightarrow> n \<le> h" by auto
  from adv_drop [OF le, of p g] a have r': "r' = drop n r0" and g': "g' = g" by auto
  have "r0 = take n r0 @ r'" using r' by simp
  moreover have "lang ic (Rep cs lo hi greedy) (take n r0)"
    using n(1) le all hi by (simp split: option.splits)
  ultimately show ?case using g' by blast
next
  case (Seq a b)
  then obtain p1 r1 g1 where 1: "(p1, r1, g1) \<in> set (ms ic a (p, r0, g))"
    and 2: "(p', r', g') \<in> set (ms ic b (p1, r1, g1))"
    by auto
  from Seq.IH(1) [OF 1] obtain u where u: "r0 = u @ r1" "lang ic a u"
    and gu: "\<forall>n. g1 n = g n \<or> (\<exists>w. g1 n = Some w \<and> grp_lang ic a n w)" by blast
  from Seq.IH(2) [OF 2] obtain v where v: "r1 = v @ r'" "lang ic b v"
    and gv: "\<forall>n. g' n = g1 n \<or> (\<exists>w. g' n = Some w \<and> grp_lang ic b n w)" by blast
  have "r0 = (u @ v) @ r'" using u v by simp
  moreover have "lang ic (Seq a b) (u @ v)" using u v by auto
  moreover have "\<forall>n. g' n = g n \<or> (\<exists>w. g' n = Some w \<and> grp_lang ic (Seq a b) n w)"
    using gu gv by (metis grp_lang.simps(2))
  ultimately show ?case by blast
next
  case (Alt a b)
  then have "(p', r', g') \<in> set (ms ic a (p, r0, g)) \<or> (p', r', g') \<in> set (ms ic b (p, r0, g))"
    by auto
  then show ?case using Alt.IH by (metis grp_lang.simps(3) lang.simps(5))
next
  case (Opt a)
  then have "(p', r', g') \<in> set (ms ic a (p, r0, g)) \<or> (p', r', g') = (p, r0, g)"
    by auto
  then show ?case
  proof
    assume "(p', r', g') \<in> set (ms ic a (p, r0, g))"
    from Opt.IH [OF this] show ?thesis by (metis grp_lang.simps(4) lang.simps(6))
  next
    assume "(p', r', g') = (p, r0, g)"
    then show ?thesis by simp
  qed
next
  case (Grp m a)
  then obtain g1 where 1: "(p', r', g1) \<in> set (ms ic a (p, r0, g))"
    and g': "g' = g1(m \<mapsto> take (length r0 - length r') r0)"
    by auto
  from Grp.IH [OF 1] obtain w where w: "r0 = w @ r'" "lang ic a w"
    and gw: "\<forall>n. g1 n = g n \<or> (\<exists>w. g1 n = Some w \<and> grp_lang ic a n w)" by blast
  have tk: "take (length r0 - length r') r0 = w" using w(1) by simp
  have "\<forall>n. g' n = g n \<or> (\<exists>w. g' n = Some w \<and> grp_lang ic (Grp m a) n w)"
  proof
    fix n
    show "g' n = g n \<or> (\<exists>w. g' n = Some w \<and> grp_lang ic (Grp m a) n w)"
    proof (cases "n = m")
      case True
      then show ?thesis using g' tk w(2) by simp
    next
      case False
      then show ?thesis using g' gw by (metis fun_upd_other grp_lang.simps(1))
    qed
  qed
  then show ?case using w by auto
next
  case WordB
  then show ?case by (auto split: if_splits)
next
  case Eos
  then show ?case by (auto split: if_splits)
next
  case (NotBehind cs)
  then show ?case by (auto split: option.splits if_splits)
next
  case (NotAhead a)
  then show ?case by (auto split: if_splits)
qed

lemma ms_sets:
  "(p', r', g') \<in> set (ms ic r (p, r0, g)) \<Longrightarrow> sets_grp r n \<or> g n \<noteq> None \<Longrightarrow> g' n \<noteq> None"
proof (induction r arbitrary: p r0 g p' r' g')
  case (Seq a b)
  then obtain p1 r1 g1 where 1: "(p1, r1, g1) \<in> set (ms ic a (p, r0, g))"
    and 2: "(p', r', g') \<in> set (ms ic b (p1, r1, g1))"
    by auto
  show ?case
  proof (cases "sets_grp a n \<or> g n \<noteq> None")
    case True
    from Seq.IH(1) [OF 1 True] have "g1 n \<noteq> None" .
    with Seq.IH(2) [OF 2] show ?thesis by blast
  next
    case False
    with Seq.prems(2) have "sets_grp b n" by simp
    with Seq.IH(2) [OF 2] show ?thesis by blast
  qed
next
  case (Alt a b)
  then have "(p', r', g') \<in> set (ms ic a (p, r0, g)) \<or> (p', r', g') \<in> set (ms ic b (p, r0, g))"
    by auto
  then show ?case using Alt.IH Alt.prems(2) by auto
next
  case (Opt a)
  then have "(p', r', g') \<in> set (ms ic a (p, r0, g)) \<or> (p', r', g') = (p, r0, g)"
    by auto
  then show ?case using Opt.IH Opt.prems(2) by auto
next
  case (Grp m a)
  then obtain g1 where 1: "(p', r', g1) \<in> set (ms ic a (p, r0, g))"
    and g': "g' = g1(m \<mapsto> take (length r0 - length r') r0)"
    by auto
  show ?case
  proof (cases "n = m")
    case True
    then show ?thesis using g' by simp
  next
    case False
    with Grp.prems(2) have "sets_grp a n \<or> g n \<noteq> None" by simp
    from Grp.IH [OF 1 this] False g' show ?thesis by simp
  qed
next
  case (Rep cs lo hi greedy)
  from Rep.prems(1) obtain k where k: "k \<le> run_len ic cs hi r0"
    and a: "(p', r', g') = adv k (p, r0, g)"
    by (rule ms_Rep_elem)
  from run_len_props [OF k] have "k \<le> length r0" by simp
  from adv_drop [OF this, of p g] a have "g' = g" by auto
  with Rep.prems(2) show ?case by simp
qed (auto split: list.splits if_splits option.splits)

lemma search_from_ms:
  "search_from ic r p t = Some g \<Longrightarrow>
     \<exists>q t0 p' t' u. (p', t', g) \<in> set (ms ic r (q, t0, Map.empty)) \<and> t = u @ t0"
proof (induction t arbitrary: p)
  case Nil
  then obtain x xs where x: "ms ic r (p, [], Map.empty) = x # xs"
    by (cases "ms ic r (p, [], Map.empty)") auto
  with Nil obtain p' t' where "x = (p', t', g)" by (cases x) auto
  with x have "(p', t', g) \<in> set (ms ic r (p, [], Map.empty))" by simp
  then show ?case by blast
next
  case (Cons c cs)
  show ?case
  proof (cases "ms ic r (p, c # cs, Map.empty)")
    case Nil
    with Cons.prems have "search_from ic r (Some c) cs = Some g" by simp
    from Cons.IH [OF this] obtain q t0 p' t' u
      where "(p', t', g) \<in> set (ms ic r (q, t0, Map.empty))" "cs = u @ t0"
      by blast
    then have "(p', t', g) \<in> set (ms ic r (q, t0, Map.empty)) \<and> c # cs = (c # u) @ t0"
      by simp
    then show ?thesis by blast
  next
    case (Cons x xs)
    with Cons.prems obtain p' t' where "x = (p', t', g)" by (cases x) auto
    with Cons have "(p', t', g) \<in> set (ms ic r (p, c # cs, Map.empty)) \<and> c # cs = [] @ c # cs"
      by simp
    then show ?thesis by blast
  qed
qed

lemma re_search_group:
  assumes "re_search ic r t = Some g"
  shows "(sets_grp r n \<longrightarrow> g n \<noteq> None) \<and> (\<forall>w. g n = Some w \<longrightarrow> grp_lang ic r n w)"
proof -
  from assms obtain q t0 p' t' where m: "(p', t', g) \<in> set (ms ic r (q, t0, Map.empty))"
    unfolding re_search_def by (blast dest: search_from_ms)
  from ms_sets [OF m] have "sets_grp r n \<longrightarrow> g n \<noteq> None" by blast
  moreover from ms_sound [OF m] have "\<forall>w. g n = Some w \<longrightarrow> grp_lang ic r n w"
    by (metis option.distinct(1) option.inject)
  ultimately show ?thesis by blast
qed



section \<open>Dates named by a weekday\<close>

lemma find_Some_mem: "find P xs = Some x \<Longrightarrow> x \<in> set xs \<and> P x"
  by (induction xs) (auto split: if_splits)

text \<open>
  The loop over the weekday table returns at the first entry, in the order of the table,
  whose name the text contains; the word before the name plays no part in the result.
\<close>

lemma weekday_loop_find:
  "weekday_loop m low tday =
     (case find (\<lambda>(name, wd). names_weekday low name) m of
        None \<Rightarrow> None
      | Some (name, wd) \<Rightarrow> Some (add_days tday (nat (spec_days_ahead tday wd))))"
  by (induction m) (auto simp: names_weekday_def spec_days_ahead_def Let_def)

lemma spec_days_ahead_range: "1 \<le> spec_days_ahead tday wd \<and> spec_days_ahead tday wd \<le> 7"
proof -
  have "0 \<le> (wd - weekday tday) mod 7" "(wd - weekday tday) mod 7 < 7"
    by simp_all
  then show ?thesis
    unfolding spec_days_ahead_def Let_def by presburger
qed

lemma parse_date_weekday:
  assumes "re_search False tonight_pat (lower text) = None"
    and "re_search False tomorrow_pat (lower text) = None"
    and "find (\<lambda>(name, wd). names_weekday (lower text) name) WEEKDAY_MAP = Some (name, wd)"
  shows "parse_date clock text now =
    returned (add_days (today clock now) (nat (spec_days_ahead (today clock now) wd)))"
  using assms by (simp add: parse_date_def weekday_loop_find Let_def)

text \<open>
  C9.  Let the lower-cased text contain none of the words tonight, today, tomorrow.  The
  weekday that resolves the date is that of the first entry of the weekday table, in the
  order of the table, whose name the text contains, wherever the names stand in the
  text.  In ''friday or monday'' Friday comes first, and Monday, which the table lists
  before it, is taken: from Wednesday 2025-03-05 the date is Monday 2025-03-10 and not
  Friday 2025-03-07.  The table lists, weekday by weekday from Monday on, the full name
  before its abbreviations.
\<close>

theorem C9_first_weekday_of_table:
  "(re_search False tonight_pat (lower text) = None \<and>
    re_search False tomorrow_pat (lower text) = None \<and>
    i < length WEEKDAY_MAP \<and> WEEKDAY_MAP ! i = (name, wd) \<and> names_weekday (lower text) name \<and>
    (\<forall>j \<in> {..<i}. \<not> names_weekday (lower text) (fst (WEEKDAY_MAP ! j)))
    \<longrightarrow> parse_date clock text now =
          returned (add_days (today clock now) (nat (spec_days_ahead (today clock now) wd)))) \<and>
   map fst WEEKDAY_MAP =
     [''monday'', ''mon'', ''tuesday'', ''tue'', ''tues'', ''wednesday'', ''wed'', ''thursday'',
      ''thu'', ''thur'', ''thurs'', ''friday'', ''fri'', ''saturday'', ''sat'', ''sunday'', ''sun''] \<and>
   parse_date clock ''friday or monday'' (Some (Datetime (Date 2025 3 5) h mi s us)) =
     Inr (Some (Date 2025 3 10)) \<and>
   parse_date clock ''friday'' (Some (Datetime (Date 2025 3 5) h mi s us)) =
     Inr (Some (Date 2025 3 7))"
proof (intro conjI impI)
  assume a: "re_search False tonight_pat (lower text) = None \<and>
    re_search False tomorrow_pat (lower text) = None \<and>
    i < length WEEKDAY_MAP \<and> WEEKDAY_MAP ! i = (name, wd) \<and> names_weekday (lower text) name \<and>
    (\<forall>j \<in> {..<i}. \<not> names_weekday (lower text) (fst (WEEKDAY_MAP ! j)))"
  let ?P = "\<lambda>(name, wd). names_weekday (lower text) name"
  from a have "find ?P WEEKDAY_MAP = Some (name, wd)"
    unfolding find_Some_iff by (auto simp: case_prod_beta intro!: exI [of _ i])
  with a show "parse_date clock text now =
      returned (add_days (today clock now) (nat (spec_days_ahead (today clock now) wd)))"
    by (simp add: parse_date_weekday)
next
  show "map fst WEEKDAY_MAP =
     [''monday'', ''mon'', ''tuesday'', ''tue'', ''tues'', ''wednesday'', ''wed'', ''thursday'',
      ''thu'', ''thur'', ''thurs'', ''friday'', ''fri'', ''saturday'', ''sat'', ''sunday'', ''sun'']"
    by (simp add: WEEKDAY_MAP_def)
next
  show "parse_date clock ''friday or monday'' (Some (Datetime (Date 2025 3 5) h mi s us)) =
      Inr (Some (Date 2025 3 10))"
    by code_simp
next
  show "parse_date clock ''friday'' (Some (Datetime (Date 2025 3 5) h mi s us)) =
      Inr (Some (Date 2025 3 7))"
    by code_simp
qed

theorem C9_first_weekday_of_table_witness:
  "parse_date (Datetime (Date 2000 1 1) 0 0 0 0) ''Saturday, or else Tue''
     (Some (Datetime (Date 2025 3 5) 12 0 0 0)) = Inr (Some (Date 2025 3 11))"
proof -
  let ?text = "''Saturday, or else Tue''"
  have 1: "re_search False tonight_pat (lower ?text) = None" by code_simp
  have 2: "re_search False tomorrow_pat (lower ?text) = None" by code_simp
  have 3: "(3::nat) < length WEEKDAY_MAP" by (simp add: WEEKDAY_MAP_def)
  have 4: "WEEKDAY_MAP ! 3 = (''tue'', 1)" by (simp add: WEEKDAY_MAP_def)
  have 5: "names_weekday (lower ?text) ''tue''" by code_simp
  have 6: "\<forall>j \<in> {..<3::nat}. \<not> names_weekday (lower ?text) (fst (WEEKDAY_MAP ! j))"
  proof -
    have "{..<3::nat} = {0, 1, 2}" by auto
    moreover have "\<not> names_weekday (lower ?text) (fst (WEEKDAY_MAP ! 0))" by code_simp
    moreover have "\<not> names_weekday (lower ?text) (fst (WEEKDAY_MAP ! 1))" by code_simp
    moreover have "\<not> names_weekday (lower ?text) (fst (WEEKDAY_MAP ! 2))" by code_simp
    ultimately show ?thesis by simp
  qed
  have 7: "returned (add_days (today (Datetime (Date 2000 1 1) 0 0 0 0)
      (Some (Datetime (Date 2025 3 5) 12 0 0 0)))
      (nat (spec_days_ahead (today (Datetime (Date 2000 1 1) 0 0 0 0)
        (Some (Datetime (Date 2025 3 5) 12 0 0 0))) 1))) = Inr (Some (Date 2025 3 11))"
    by code_simp
  from C9_first_weekday_of_table [of ?text 3 "''tue''" 1, THEN conjunct1, rule_format,
      OF conjI [OF 1 conjI [OF 2 conjI [OF 3 conjI [OF 4 conjI [OF 5 6]]]]]] 7
  show ?thesis by simp
qed

section \<open>Extracted dates and the reference date\<close>

lemma next_day_less: "next_day d = Inr d' \<Longrightarrow> date_less d d'"
  by (auto simp: next_day_def date_less_def split: if_splits)

lemma add_days_not_less: "add_days d n = Inr d' \<Longrightarrow> \<not> date_less d' d"
proof (induction n arbitrary: d)
  case 0
  then show ?case by (simp add: date_less_def)
next
  case (Suc n)
  then obtain d1 where 1: "next_day d = Inr d1" and 2: "add_days d1 n = Inr d'"
    by (auto split: sum.splits)
  from Suc.IH [OF 2] next_day_less [OF 1] show ?case
    by (auto simp: date_less_def)
qed

lemma mk_date_fields: "mk_date y m d = Inr x \<Longrightarrow> x = Date y m d"
  by (auto simp: mk_date_def split: if_splits)

lemma next_year_not_less: "mk_date (year tday + 1) m d = Inr x \<Longrightarrow> \<not> date_less x tday"
  by (auto simp: date_less_def dest!: mk_date_fields)

lemma weekday_loop_not_less: "weekday_loop m low tday = Some (Inr d) \<Longrightarrow> \<not> date_less d tday"
  by (auto simp: weekday_loop_find add_days_not_less split: option.splits prod.splits)

lemma month_loop_not_less: "month_loop m low tday = Some (Inr d) \<Longrightarrow> \<not> date_less d tday"
proof (induction m)
  case Nil
  then show ?case by simp
next
  case (Cons e m)
  obtain month_name month_num where e: "e = (month_name, month_num)" by (cases e)
  from Cons.prems Cons.IH show ?case
    unfolding e month_loop.simps Let_def
    by (auto split: option.splits sum.splits if_splits dest: next_year_not_less)
qed

lemma slash_loop_not_less: "slash_loop ps tday = Some (Inr d) \<Longrightarrow> \<not> date_less d tday"
proof (induction ps)
  case Nil
  then show ?case by simp
next
  case (Cons e ps)
  obtain mth dy where e: "e = (mth, dy)" by (cases e)
  from Cons.prems Cons.IH show ?case
    unfolding e slash_loop.simps
    by (auto split: sum.splits if_splits dest: next_year_not_less)
qed

lemma slash_rule_not_less: "slash_rule text tday = Some (Inr d) \<Longrightarrow> \<not> date_less d tday"
  unfolding slash_rule_def
  by (auto simp del: slash_loop.simps split: option.splits sum.splits dest: slash_loop_not_less)

lemma returned_Some: "returned r = Inr (Some d) \<longleftrightarrow> r = Inr d"
  by (cases r) (auto simp: returned_def)

text \<open>
  C2, as the code has it.  The claim fails for the literal ISO rule: with the reference
  date 2025-03-05 the text ``book on 2020-01-01 at Prozdor'' yields the date 2020-01-01.
\<close>

theorem C2_counterexample:
  "parse_date (Datetime (Date 2025 3 5) 12 0 0 0) ''book on 2020-01-01 at Prozdor''
     (Some (Datetime (Date 2025 3 5) 12 0 0 0)) = Inr (Some (Date 2020 1 1)) \<and>
   date_less (Date 2020 1 1)
     (today (Datetime (Date 2025 3 5) 12 0 0 0) (Some (Datetime (Date 2025 3 5) 12 0 0 0)))"
  by code_simp

text \<open>
  C2, amended.  Whenever the date field is present, either it is the date the literal
  ISO rule returned for the text, after every earlier rule found nothing, or it is not
  earlier than the reference date.
\<close>

theorem C2_date_not_past_unless_iso:
  assumes "parse_date clock text now = Inr (Some d)"
  shows "(if date_less d (today clock now)
          then iso_rule text = Some (Inr d) \<and>
               re_search False tonight_pat (lower text) = None \<and>
               re_search False tomorrow_pat (lower text) = None \<and>
               weekday_loop WEEKDAY_MAP (lower text) (today clock now) = None \<and>
               month_loop MONTH_MAP (lower text) (today clock now) = None
          else True)"
proof (cases "date_less d (today clock now)")
  case False
  then show ?thesis by simp
next
  case True
  let ?t = "today clock now"
  have 1: "re_search False tonight_pat (lower text) = None"
  proof (rule ccontr)
    assume "re_search False tonight_pat (lower text) \<noteq> None"
    with assms have "d = ?t" by (simp add: parse_date_def Let_def)
    with True show False by (simp add: date_less_def)
  qed
  have 2: "re_search False tomorrow_pat (lower text) = None"
  proof (rule ccontr)
    assume "re_search False tomorrow_pat (lower text) \<noteq> None"
    with assms 1 have "add_days ?t 1 = Inr d"
      by (simp add: parse_date_def Let_def returned_Some)
    with True show False using add_days_not_less by blast
  qed
  have 3: "weekday_loop WEEKDAY_MAP (lower text) ?t = None"
  proof (rule ccontr)
    assume "weekday_loop WEEKDAY_MAP (lower text) ?t \<noteq> None"
    with assms 1 2 have "weekday_loop WEEKDAY_MAP (lower text) ?t = Some (Inr d)"
      by (auto simp: parse_date_def Let_def returned_Some)
    with True show False using weekday_loop_not_less by blast
  qed
  have 4: "month_loop MONTH_MAP (lower text) ?t = None"
  proof (rule ccontr)
    assume "month_loop MONTH_MAP (lower text) ?t \<noteq> None"
    with assms 1 2 3 have "month_loop MONTH_MAP (lower text) ?t = Some (Inr d)"
      by (auto simp: parse_date_def Let_def returned_Some)
    with True show False using month_loop_not_less by blast
  qed
  have 5: "iso_rule text = Some (Inr d)"
  proof (cases "iso_rule text")
    case None
    with assms 1 2 3 4 have "slash_rule text ?t = Some (Inr d)"
      by (auto simp: parse_date_def Let_def returned_Some split: option.splits)
    with True show ?thesis using slash_rule_not_less by blast
  next
    case (Some r)
    with assms 1 2 3 4 show ?thesis
      by (auto simp: parse_date_def Let_def returned_Some)
  qed
  from True 1 2 3 4 5 show ?thesis by simp
qed

theorem C2_date_not_past_unless_iso_witness:
  "parse_date (Datetime (Date 2025 3 5) 12 0 0 0) ''table for two on 3 March''
     (Some (Datetime (Date 2025 3 5) 12 0 0 0)) = Inr (Some (Date 2026 3 3)) \<and>
   iso_rule ''table for two on 3 March'' = None \<and>
   \<not> date_less (Date 2026 3 3)
     (today (Datetime (Date 2025 3 5) 12 0 0 0) (Some (Datetime (Date 2025 3 5) 12 0 0 0)))"
proof -
  let ?c = "Datetime (Date 2025 3 5) 12 0 0 0"
  let ?text = "''table for two on 3 March''"
  have 1: "parse_date ?c ?text (Some ?c) = Inr (Some (Date 2026 3 3))" by code_simp
  have 2: "iso_rule ?text = None" by code_simp
  from C2_date_not_past_unless_iso [OF 1] 2
  have "\<not> date_less (Date 2026 3 3) (today ?c (Some ?c))"
    by (auto split: if_splits)
  with 1 2 show ?thesis by simp
qed

section \<open>Groups of digits\<close>

lemma code_char_of: "code (char_of n) = n mod 256"
  by (simp add: code_def)

lemma is_digit_py_lower: "is_digit (py_lower c) = is_digit c"
  by (auto simp: is_digit_def py_lower_def Let_def code_char_of)

lemma is_digit_py_upper: "is_digit (py_upper c) = is_digit c"
  by (auto simp: is_digit_def py_upper_def Let_def code_char_of)

lemma in_cset_Dg: "in_cset ic [Dg] c = is_digit c"
  by (simp add: in_cset_def is_digit_py_lower is_digit_py_upper)

lemma in_cset_Dg_fun: "in_cset ic [Dg] = is_digit"
  by (rule ext) (rule in_cset_Dg)

lemma grp_lang_lit: "grp_lang ic (lit s) n w = False"
  by (induction s) (simp_all add: lit_def cat_def)

lemma sets_grp_lit: "sets_grp (lit s) n = False"
  by (induction s) (simp_all add: lit_def cat_def)

lemma foldl_digits_nonneg:
  "list_all is_digit w \<Longrightarrow> 0 \<le> a \<Longrightarrow> 0 \<le> foldl (\<lambda>a c. 10 * a + digit_val c) a w"
proof (induction w arbitrary: a)
  case Nil
  then show ?case by simp
next
  case (Cons c w)
  then have "0 \<le> 10 * a + digit_val c"
    by (simp add: digit_val_def is_digit_def)
  with Cons show ?case by simp
qed

lemma py_int_digits:
  "w \<noteq> [] \<Longrightarrow> list_all is_digit w \<Longrightarrow> length w \<le> int_max_str_digits \<Longrightarrow>
     \<exists>v. py_int w = Inr v \<and> 0 \<le> v"
  by (simp add: py_int_def foldl_digits_nonneg)


lemma lang_Rep_digits:
  "lang ic (Rep [Dg] lo hi greedy) w \<Longrightarrow> 0 < lo \<Longrightarrow> w \<noteq> [] \<and> list_all is_digit w"
  by (auto simp: in_cset_Dg_fun)

lemma group_int_digits:
  assumes "re_search ic r t = Some g" and "sets_grp r k"
    and "\<And>w. grp_lang ic r k w \<Longrightarrow>
      w \<noteq> [] \<and> list_all is_digit w \<and> length w \<le> int_max_str_digits"
  shows "\<exists>v. group_int g k = Inr v \<and> 0 \<le> v"
proof -
  from re_search_group [OF assms(1), of k] assms(2) obtain w
    where w: "g k = Some w" and "grp_lang ic r k w" by auto
  with assms(3) have "w \<noteq> []" "list_all is_digit w" "length w \<le> int_max_str_digits" by auto
  from py_int_digits [OF this] w show ?thesis by (simp add: group_int_def)
qed

lemmas pat_simps = cat_def alts_def grp_lang_lit sets_grp_lit in_cset_Dg_fun int_max_str_digits_def

lemma colon_pat_groups:
  assumes "re_search True colon_pat t = Some g"
  shows "\<exists>hour minute. group_int g 1 = Inr hour \<and> 0 \<le> hour \<and> group_int g 2 = Inr minute \<and> 0 \<le> minute"
proof -
  have "\<exists>v. group_int g 1 = Inr v \<and> 0 \<le> v"
    by (rule group_int_digits [OF assms]) (auto simp: colon_pat_def pat_simps)
  moreover have "\<exists>v. group_int g 2 = Inr v \<and> 0 \<le> v"
    by (rule group_int_digits [OF assms]) (auto simp: colon_pat_def pat_simps)
  ultimately show ?thesis by blast
qed

lemma bare_pat_groups:
  assumes "re_search True bare_pat t = Some g"
  shows "\<exists>hour s. group_int g 1 = Inr hour \<and> 0 \<le> hour \<and> g 2 = Some s"
proof -
  have "\<exists>v. group_int g 1 = Inr v \<and> 0 \<le> v"
    by (rule group_int_digits [OF assms]) (auto simp: bare_pat_def pat_simps)
  moreover have "g 2 \<noteq> None"
    using re_search_group [OF assms, of 2] by (simp add: bare_pat_def pat_simps)
  ultimately show ?thesis by auto
qed

section \<open>Time extraction\<close>

lemma parse_time_rules:
  "parse_time text =
     (case colon_rule (time_text text) of
        Inl e \<Rightarrow> Inl e
      | Inr (Some t) \<Rightarrow> Inr t
      | Inr None \<Rightarrow> bare_rule (time_text text))"
  by (simp add: parse_time_def time_text_def Let_def split: sum.splits option.splits)

lemma colon_rule_match:
  assumes "re_search True colon_pat low = Some g"
  shows "\<exists>hour minute. group_int g 1 = Inr hour \<and> group_int g 2 = Inr minute \<and>
     colon_rule low =
       (let h24 = spec_to24 hour (lower (case g 3 of None \<Rightarrow> [] | Some s \<Rightarrow> s))
        in if h24 \<le> 23 \<and> minute \<le> 59 then Inr (Some (fmt02 h24 @ '':'' @ fmt02 minute))
           else Inr None)"
proof -
  from colon_pat_groups [OF assms] obtain hour minute
    where g: "group_int g 1 = Inr hour" "0 \<le> hour" "group_int g 2 = Inr minute" "0 \<le> minute"
    by blast
  then have "colon_rule low =
       (let h24 = spec_to24 hour (lower (case g 3 of None \<Rightarrow> [] | Some s \<Rightarrow> s))
        in if h24 \<le> 23 \<and> minute \<le> 59 then Inr (Some (fmt02 h24 @ '':'' @ fmt02 minute))
           else Inr None)"
    using assms by (auto simp: colon_rule_def ebind_def spec_to24_def Let_def)
  with g show ?thesis by blast
qed

lemma bare_rule_match:
  assumes "re_search True bare_pat low = Some g"
  shows "\<exists>hour s. group_int g 1 = Inr hour \<and> g 2 = Some s \<and>
     bare_rule low =
       (let h24 = spec_to24 hour (lower s)
        in if h24 \<le> 23 then Inr (fmt02 h24 @ '':00'') else Inr [])"
proof -
  from bare_pat_groups [OF assms] obtain hour s
    where g: "group_int g 1 = Inr hour" "0 \<le> hour" "g 2 = Some s"
    by blast
  then have "bare_rule low =
       (let h24 = spec_to24 hour (lower s)
        in if h24 \<le> 23 then Inr (fmt02 h24 @ '':00'') else Inr [])"
    using assms by (auto simp: bare_rule_def ebind_def spec_to24_def Let_def)
  with g show ?thesis by blast
qed

text \<open>
  C3.  For every text: when the colon pattern matches the text the time patterns are
  searched in, its hour and minute groups are numbers, the hour is converted with the
  meridiem (pm adds 12 unless the hour is 12, am maps 12 to 0), and the result is HH:MM
  when the converted hour is at most 23 and the minute at most 59; otherwise, and when
  the colon pattern does not match, the result is that of the rule for a bare hour with
  a meridiem.  That rule converts the hour in the same way and answers HH:00 when the
  converted hour is at most 23, and the empty string when it is not or when nothing
  matches.  No exception is raised.  7:30pm gives 19:30, 12:00 am gives 00:00, 20:30
  gives 20:30, 8pm gives 20:00 and 12pm gives 12:00.
\<close>

theorem C3_time_rules:
  "(case re_search True colon_pat (time_text text) of
      None \<Rightarrow> parse_time text = bare_rule (time_text text)
    | Some g \<Rightarrow>
        (\<exists>hour minute. group_int g 1 = Inr hour \<and> group_int g 2 = Inr minute \<and>
           parse_time text =
             (let h24 = spec_to24 hour (lower (case g 3 of None \<Rightarrow> [] | Some s \<Rightarrow> s))
              in if h24 \<le> 23 \<and> minute \<le> 59 then Inr (fmt02 h24 @ '':'' @ fmt02 minute)
                 else bare_rule (time_text text)))) \<and>
   (case re_search True bare_pat low of
      None \<Rightarrow> bare_rule low = Inr []
    | Some g \<Rightarrow>
        (\<exists>hour s. group_int g 1 = Inr hour \<and> g 2 = Some s \<and>
           bare_rule low =
             (let h24 = spec_to24 hour (lower s)
              in if h24 \<le> 23 then Inr (fmt02 h24 @ '':00'') else Inr []))) \<and>
   parse_time ''7:30pm'' = Inr ''19:30'' \<and>
   parse_time ''12:00 am'' = Inr ''00:00'' \<and>
   parse_time ''20:30'' = Inr ''20:30'' \<and>
   parse_time ''8pm'' = Inr ''20:00'' \<and>
   parse_time ''12pm'' = Inr ''12:00''"
proof (intro conjI)
  show "case re_search True colon_pat (time_text text) of
      None \<Rightarrow> parse_time text = bare_rule (time_text text)
    | Some g \<Rightarrow>
        (\<exists>hour minute. group_int g 1 = Inr hour \<and> group_int g 2 = Inr minute \<and>
           parse_time text =
             (let h24 = spec_to24 hour (lower (case g 3 of None \<Rightarrow> [] | Some s \<Rightarrow> s))
              in if h24 \<le> 23 \<and> minute \<le> 59 then Inr (fmt02 h24 @ '':'' @ fmt02 minute)
                 else bare_rule (time_text text)))"
  proof (cases "re_search True colon_pat (time_text text)")
    case None
    then show ?thesis by (simp add: parse_time_rules colon_rule_def)
  next
    case (Some g)
    from colon_rule_match [OF Some] obtain hour minute
      where g: "group_int g 1 = Inr hour" "group_int g 2 = Inr minute"
        and c: "colon_rule (time_text text) =
          (let h24 = spec_to24 hour (lower (case g 3 of None \<Rightarrow> [] | Some s \<Rightarrow> s))
           in if h24 \<le> 23 \<and> minute \<le> 59 then Inr (Some (fmt02 h24 @ '':'' @ fmt02 minute))
              else Inr None)"
      by blast
    have "parse_time text =
        (let h24 = spec_to24 hour (lower (case g 3 of None \<Rightarrow> [] | Some s \<Rightarrow> s))
         in if h24 \<le> 23 \<and> minute \<le> 59 then Inr (fmt02 h24 @ '':'' @ fmt02 minute)
            else bare_rule (time_text text))"
      unfolding parse_time_rules c by (simp add: Let_def)
    with g Some show ?thesis by auto
  qed
next
  show "case re_search True bare_pat low of
      None \<Rightarrow> bare_rule low = Inr []
    | Some g \<Rightarrow>
        (\<exists>hour s. group_int g 1 = Inr hour \<and> g 2 = Some s \<and>
           bare_rule low =
             (let h24 = spec_to24 hour (lower s)
              in if h24 \<le> 23 then Inr (fmt02 h24 @ '':00'') else Inr []))"
  proof (cases "re_search True bare_pat low")
    case None
    then show ?thesis by (simp add: bare_rule_def)
  next
    case (Some g)
    from bare_rule_match [OF Some] Some show ?thesis by simp
  qed
next
  show "parse_time ''7:30pm'' = Inr ''19:30''" by code_simp
next
  show "parse_time ''12:00 am'' = Inr ''00:00''" by code_simp
next
  show "parse_time ''20:30'' = Inr ''20:30''" by code_simp
next
  show "parse_time ''8pm'' = Inr ''20:00''" by code_simp
next
  show "parse_time ''12pm'' = Inr ''12:00''" by code_simp
qed

theorem C3_time_rules_witness:
  "parse_time ''at 13:00pm'' = Inr ''12:00'' \<and> parse_time ''at 9:05 AM'' = Inr ''09:05''"
proof -
  have "case re_search True colon_pat (time_text ''at 13:00pm'') of None \<Rightarrow> False
    | Some g \<Rightarrow> group_int g 1 = Inr 13 \<and> group_int g 2 = Inr 0 \<and> g 3 = Some ''pm''"
    by code_simp
  then obtain g1 where g1: "re_search True colon_pat (time_text ''at 13:00pm'') = Some g1"
    and g11: "group_int g1 1 = Inr 13" and g12: "group_int g1 2 = Inr 0"
    and g13: "g1 3 = Some ''pm''"
    by (cases "re_search True colon_pat (time_text ''at 13:00pm'')") auto
  have b1: "bare_rule (time_text ''at 13:00pm'') = Inr ''12:00''" by code_simp
  have "case re_search True colon_pat (time_text ''at 9:05 AM'') of None \<Rightarrow> False
    | Some g \<Rightarrow> group_int g 1 = Inr 9 \<and> group_int g 2 = Inr 5 \<and> g 3 = Some ''am''"
    by code_simp
  then obtain g2 where g2: "re_search True colon_pat (time_text ''at 9:05 AM'') = Some g2"
    and g21: "group_int g2 1 = Inr 9" and g22: "group_int g2 2 = Inr 5"
    and g23: "g2 3 = Some ''am''"
    by (cases "re_search True colon_pat (time_text ''at 9:05 AM'')") auto
  have l: "lower ''pm'' = ''pm''" "lower ''am'' = ''am''" by code_simp+
  have f: "fmt02 9 @ '':'' @ fmt02 5 = ''09:05''" by code_simp
  from C3_time_rules [of "''at 13:00pm''", THEN conjunct1] g1 g11 g12 g13 b1 l
  have 1: "parse_time ''at 13:00pm'' = Inr ''12:00''"
    by (simp add: spec_to24_def)
  from C3_time_rules [of "''at 9:05 AM''", THEN conjunct1] g2 g21 g22 g23 l f
  have 2: "parse_time ''at 9:05 AM'' = Inr ''09:05''"
    by (simp add: spec_to24_def)
  from 1 2 show ?thesis by simp
qed

section \<open>Restaurant-name extraction\<close>

lemma pop_noise_snoc:
  "pop_noise (xs @ [x]) = (if is_noise x then pop_noise xs else xs @ [x])"
  by (subst pop_noise.simps) (simp add: is_noise_def)

lemma pop_noise_trim: "pop_noise parts = spec_trim_trailing_noise parts"
proof (induction parts rule: rev_induct)
  case Nil
  show ?case by (subst pop_noise.simps) (simp add: spec_trim_trailing_noise_def)
next
  case (snoc x xs)
  then show ?case by (simp add: pop_noise_snoc spec_trim_trailing_noise_def)
qed

lemma pop_noise_all_noise: "list_all is_noise parts \<Longrightarrow> pop_noise parts = []"
proof (induction parts rule: rev_induct)
  case Nil
  show ?case by (subst pop_noise.simps) simp
next
  case (snoc x xs)
  then show ?case by (simp add: pop_noise_snoc)
qed

lemma code_letters:
  "code CHR ''A'' = 65" "code CHR ''Z'' = 90" "code CHR ''a'' = 97" "code CHR ''z'' = 122"
  by (simp_all add: code_def)

lemma code_eq_iff: "code c = code d \<longleftrightarrow> c = d"
  by (simp add: code_def)

lemma is_letter_py_lower: "is_letter (py_lower c) = is_letter c"
  by (auto simp: is_letter_def py_lower_def Let_def code_char_of)

lemma is_letter_py_upper: "is_letter (py_upper c) = is_letter c"
  by (auto simp: is_letter_def py_upper_def Let_def code_char_of)

lemma in_cset_letters:
  "in_cset True [Rg CHR ''A'' CHR ''Z'', Rg CHR ''a'' CHR ''z''] c = is_letter c"
proof -
  have "\<And>d. (code CHR ''A'' \<le> code d \<and> code d \<le> code CHR ''Z'' \<or>
      code CHR ''a'' \<le> code d \<and> code d \<le> code CHR ''z'') = is_letter d"
    by (auto simp: is_letter_def code_letters)
  then show ?thesis
    using is_letter_py_lower [of c] is_letter_py_upper [of c] by (auto simp: in_cset_def)
qed

lemma at_pat_group:
  assumes "re_search True at_pat text = Some g"
  shows "\<exists>c cs. g 1 = Some (c # cs) \<and> is_letter c \<and> cs \<noteq> [] \<and>
     list_all (in_cset True name_chars) cs"
proof -
  from re_search_group [OF assms, of 1] obtain w where w: "g 1 = Some w"
    and l: "grp_lang True at_pat 1 w"
    by (auto simp: at_pat_def pat_simps)
  from l obtain c cs where "w = c # cs" "in_cset True [Rg CHR ''A'' CHR ''Z'', Rg CHR ''a'' CHR ''z''] c"
    "cs \<noteq> []" "list_all (in_cset True name_chars) cs"
    by (auto simp: at_pat_def pat_simps Suc_le_eq)
  with w show ?thesis by (auto simp: in_cset_letters)
qed

lemma code_name_chars: "code CHR '' '' = 32" "code CHR 0x27 = 39" "code CHR ''-'' = 45"
  by (simp_all add: code_def)

lemma py_lower_eq_plain:
  "code d = 32 \<or> code d = 39 \<or> code d = 45 \<Longrightarrow> py_lower c = d \<longleftrightarrow> c = d"
  by (auto simp: py_lower_def Let_def code_char_of)

lemma py_upper_eq_plain:
  "code d = 32 \<or> code d = 39 \<or> code d = 45 \<Longrightarrow> py_upper c = d \<longleftrightarrow> c = d"
  by (auto simp: py_upper_def Let_def code_char_of)

lemma plain_chars:
  "py_lower c = CHR '' '' \<longleftrightarrow> code c = 32" "py_upper c = CHR '' '' \<longleftrightarrow> code c = 32"
  "py_lower c = CHR 0x27 \<longleftrightarrow> code c = 39" "py_upper c = CHR 0x27 \<longleftrightarrow> code c = 39"
  "py_lower c = CHR ''-'' \<longleftrightarrow> code c = 45" "py_upper c = CHR ''-'' \<longleftrightarrow> code c = 45"
  using code_eq_iff [of c "CHR '' ''"] code_eq_iff [of c "CHR 0x27"] code_eq_iff [of c "CHR ''-''"]
  by (simp_all add: py_lower_eq_plain py_upper_eq_plain code_name_chars)

lemma in_cset_name_chars: "in_cset True name_chars c = is_name_char c"
proof -
  have "in_cset True name_chars c =
      ((is_letter (py_lower c) \<or> is_letter (py_upper c)) \<or>
       (py_lower c = CHR '' '' \<or> py_upper c = CHR '' '') \<or>
       (py_lower c = CHR 0x27 \<or> py_upper c = CHR 0x27) \<or>
       (py_lower c = CHR ''-'' \<or> py_upper c = CHR ''-''))"
    unfolding in_cset_def name_chars_def is_letter_def code_letters [symmetric]
    by (simp del: code_letters) blast
  then show ?thesis
    by (simp add: is_letter_py_lower is_letter_py_upper plain_chars is_name_char_def)
qed

lemma in_cset_name_chars_fun: "in_cset True name_chars = is_name_char"
  by (rule ext) (rule in_cset_name_chars)

lemma parse_restaurant_name_at:
  assumes "re_search True at_pat text = Some g" and "g 1 = Some s"
  shows "parse_restaurant_name text =
     (if is_noise (strip s) then in_rule text
      else Inr (join '' '' (spec_trim_trailing_noise (split (strip s)))))"
  using assms
  by (simp add: parse_restaurant_name_def Let_def is_noise_def clean_restaurant_name_def
      pop_noise_trim)

text \<open>
  C5.  When the pattern for ``at Name'' matches, the capture begins with a letter and goes
  on with letters, spaces, apostrophes and hyphens; when the capture, stripped and
  lower-cased, is not a noise word, the restaurant name is the capture with its trailing
  noise words trimmed, its words joined by single spaces, and otherwise the later rules
  decide.  When the pattern does not match, the later rules decide.  ``book 2 tonight
  8pm at Prozdor'' gives Prozdor, ``reservation for 4 tomorrow 7:30pm at Machneyuda''
  gives Machneyuda and ``dinner next Friday 9pm, 3 people, at Taizu Bar'' gives Taizu Bar.
\<close>

theorem C5_at_rule:
  "(case re_search True at_pat text of
      None \<Rightarrow> parse_restaurant_name text = in_rule text
    | Some g \<Rightarrow>
        (\<exists>c cs. g 1 = Some (c # cs) \<and> is_letter c \<and> cs \<noteq> [] \<and> list_all is_name_char cs \<and>
           parse_restaurant_name text =
             (if is_noise (strip (c # cs)) then in_rule text
              else Inr (join '' '' (spec_trim_trailing_noise (split (strip (c # cs)))))))) \<and>
   parse_restaurant_name ''book 2 tonight 8pm at Prozdor'' = Inr ''Prozdor'' \<and>
   parse_restaurant_name ''reservation for 4 tomorrow 7:30pm at Machneyuda'' = Inr ''Machneyuda'' \<and>
   parse_restaurant_name ''dinner next Friday 9pm, 3 people, at Taizu Bar'' = Inr ''Taizu Bar''"
proof (intro conjI)
  show "case re_search True at_pat text of
      None \<Rightarrow> parse_restaurant_name text = in_rule text
    | Some g \<Rightarrow>
        (\<exists>c cs. g 1 = Some (c # cs) \<and> is_letter c \<and> cs \<noteq> [] \<and> list_all is_name_char cs \<and>
           parse_restaurant_name text =
             (if is_noise (strip (c # cs)) then in_rule text
              else Inr (join '' '' (spec_trim_trailing_noise (split (strip (c # cs)))))))"
  proof (cases "re_search True at_pat text")
    case None
    then show ?thesis by (simp add: parse_restaurant_name_def)
  next
    case (Some g)
    from at_pat_group [OF Some] obtain c cs where g: "g 1 = Some (c # cs)" "is_letter c"
      "cs \<noteq> []" "list_all (in_cset True name_chars) cs"
      by blast
    from parse_restaurant_name_at [OF Some g(1)] g Some show ?thesis
      by (auto simp: in_cset_name_chars_fun)
  qed
  show "parse_restaurant_name ''book 2 tonight 8pm at Prozdor'' = Inr ''Prozdor''"
    by code_simp
  show "parse_restaurant_name ''reservation for 4 tomorrow 7:30pm at Machneyuda'' =
      Inr ''Machneyuda''"
    by code_simp
  show "parse_restaurant_name ''dinner next Friday 9pm, 3 people, at Taizu Bar'' =
      Inr ''Taizu Bar''"
    by code_simp
qed

theorem C5_at_rule_witness:
  "parse_restaurant_name ''lunch at Taizu Bar today'' = Inr ''Taizu Bar''"
proof -
  let ?text = "''lunch at Taizu Bar today''"
  have "case re_search True at_pat ?text of None \<Rightarrow> False
    | Some g \<Rightarrow> g 1 = Some ''Taizu Bar today''"
    by code_simp
  then obtain g where g: "re_search True at_pat ?text = Some g" "g 1 = Some ''Taizu Bar today''"
    by (cases "re_search True at_pat ?text") auto
  have n: "\<not> is_noise (strip ''Taizu Bar today'')" by code_simp
  have t: "join '' '' (spec_trim_trailing_noise (split (strip ''Taizu Bar today''))) = ''Taizu Bar''"
    by code_simp
  from C5_at_rule [of ?text, THEN conjunct1] g have
    "parse_restaurant_name ?text =
       (if is_noise (strip ''Taizu Bar today'') then in_rule ?text
        else Inr (join '' '' (spec_trim_trailing_noise (split (strip ''Taizu Bar today'')))))"
    by auto
  with n t show ?thesis by simp
qed

text \<open>
  C10.  When the pattern for ``at Name'' matches and the capture, stripped and lower-cased,
  is not a noise word while each of its words is one, the restaurant name is the empty
  string: the rule for ``in Name'' and the rule of the capitalised words are not tried.
  In ``Taizu: a table at the restaurant'' the capture is ``the restaurant'' and the
  result is empty, although the later rules would have answered Taizu.
\<close>

theorem C10_at_rule_all_noise:
  "(re_search True at_pat text = Some g \<and> g 1 = Some s \<and> \<not> is_noise (strip s) \<and>
    list_all is_noise (split (strip s)) \<longrightarrow> parse_restaurant_name text = Inr []) \<and>
   parse_restaurant_name ''Taizu: a table at the restaurant'' = Inr [] \<and>
   in_rule ''Taizu: a table at the restaurant'' = Inr ''Taizu'' \<and>
   capitalised_rule ''Taizu: a table at the restaurant'' = Inr ''Taizu''"
proof (intro conjI impI)
  assume a: "re_search True at_pat text = Some g \<and> g 1 = Some s \<and> \<not> is_noise (strip s) \<and>
    list_all is_noise (split (strip s))"
  then have "pop_noise (split (strip s)) = []"
    by (simp add: pop_noise_all_noise)
  with a show "parse_restaurant_name text = Inr []"
    by (simp add: parse_restaurant_name_def Let_def is_noise_def clean_restaurant_name_def)
next
  show "parse_restaurant_name ''Taizu: a table at the restaurant'' = Inr []"
    by code_simp
next
  show "in_rule ''Taizu: a table at the restaurant'' = Inr ''Taizu''"
    by code_simp
next
  show "capitalised_rule ''Taizu: a table at the restaurant'' = Inr ''Taizu''"
    by code_simp
qed

theorem C10_at_rule_all_noise_witness:
  "parse_restaurant_name ''Prozdor please, book a table at the restaurant'' = Inr [] \<and>
   capitalised_rule ''Prozdor please, book a table at the restaurant'' = Inr ''Prozdor''"
proof -
  let ?text = "''Prozdor please, book a table at the restaurant''"
  have "case re_search True at_pat ?text of None \<Rightarrow> False
    | Some g \<Rightarrow> g 1 = Some ''the restaurant''"
    by code_simp
  then obtain g where g: "re_search True at_pat ?text = Some g" "g 1 = Some ''the restaurant''"
    by (cases "re_search True at_pat ?text") auto
  have n: "\<not> is_noise (strip ''the restaurant'')" by code_simp
  have w: "list_all is_noise (split (strip ''the restaurant''))" by code_simp
  have c: "capitalised_rule ?text = Inr ''Prozdor''" by code_simp
  from C10_at_rule_all_noise [of ?text g "''the restaurant''", THEN conjunct1, rule_format,
      OF conjI [OF g(1) conjI [OF g(2) conjI [OF n w]]]] c
  show ?thesis by simp
qed

section \<open>The last dates of the calendar\<close>

lemma days_in_month_ge: "28 \<le> days_in_month y m" and days_in_month_le: "days_in_month y m \<le> 31"
  by (simp_all add: days_in_month_def)

lemma next_day_defined:
  assumes "valid_date d" and "year d < 9999 \<or> month d < 12 \<or> day d + int (Suc n) \<le> 31"
    and "Suc n \<le> 31"
  shows "\<exists>d1. next_day d = Inr d1 \<and> valid_date d1 \<and>
    (year d1 < 9999 \<or> month d1 < 12 \<or> day d1 + int n \<le> 31)"
proof -
  obtain y m dd where d: "d = Date y m dd" by (cases d)
  from assms(1) have v: "1 \<le> y" "y \<le> 9999" "1 \<le> m" "m \<le> 12" "1 \<le> dd" "dd \<le> days_in_month y m"
    by (simp_all add: valid_date_def d)
  from assms(2) have b: "y < 9999 \<or> m < 12 \<or> dd + int n + 1 \<le> 31"
    by (auto simp: d)
  show ?thesis
  proof (cases "dd < days_in_month y m")
    case True
    with v b show ?thesis
      by (auto simp: next_day_def valid_date_def d)
  next
    case False
    with v have dd: "dd = days_in_month y m" by simp
    show ?thesis
    proof (cases "m < 12")
      case True
      have "28 \<le> days_in_month y (m + 1)" by (rule days_in_month_ge)
      with True v assms(3) dd show ?thesis
        by (auto simp: next_day_def valid_date_def d)
    next
      case m: False
      with v have m12: "m = 12" by simp
      then have "dd = 31" using dd by (simp add: days_in_month_def)
      with b m12 have y: "y < 9999" by auto
      have "28 \<le> days_in_month (y + 1) 1" by (rule days_in_month_ge)
      with y v m12 dd show ?thesis
        by (auto simp: next_day_def valid_date_def d)
    qed
  qed
qed

lemma add_days_defined:
  "valid_date d \<Longrightarrow> year d < 9999 \<or> month d < 12 \<or> day d + int n \<le> 31 \<Longrightarrow> n \<le> 31 \<Longrightarrow>
     \<exists>d'. add_days d n = Inr d'"
proof (induction n arbitrary: d)
  case 0
  then show ?case by simp
next
  case (Suc n)
  from next_day_defined [OF Suc.prems] obtain d1 where 1: "next_day d = Inr d1"
    and v: "valid_date d1" and b: "year d1 < 9999 \<or> month d1 < 12 \<or> day d1 + int n \<le> 31"
    by blast
  from Suc.IH [OF v b] Suc.prems(3) 1 show ?case by simp
qed


lemma add_days_week:
  assumes "valid_date d" and "date_less d (Date 9999 12 25)" and "n \<le> 7"
  shows "\<exists>d'. add_days d n = Inr d'"
proof -
  from assms(1,2) have "year d < 9999 \<or> month d < 12 \<or> day d < 25"
    by (auto simp: date_less_def valid_date_def)
  with assms(3) have "year d < 9999 \<or> month d < 12 \<or> day d + int n \<le> 31" by auto
  with assms show ?thesis by (intro add_days_defined) auto
qed

lemma add_days_less: "0 < n \<Longrightarrow> add_days d n = Inr d' \<Longrightarrow> date_less d d'"
proof -
  assume "0 < n" and a: "add_days d n = Inr d'"
  then obtain k where n: "n = Suc k" by (cases n) auto
  with a obtain d1 where 1: "next_day d = Inr d1" and 2: "add_days d1 k = Inr d'"
    by (auto split: sum.splits)
  from next_day_less [OF 1] add_days_not_less [OF 2] show ?thesis
    by (auto simp: date_less_def)
qed

text \<open>
  C1, as the code has it.  The claim fails when the reference date is so late that the
  reference date plus the days ahead is beyond 9999-12-31, the last date a \<^verbatim>\<open>date\<close>
  holds: for the reference date 9999-12-31, a Friday, the text ``friday'' names a weekday
  and none of the earlier keywords, and no date is extracted: the addition of 7 days
  raises \<^verbatim>\<open>OverflowError\<close>.
\<close>

theorem C1_counterexample:
  "parse_date (Datetime (Date 9999 12 31) 12 0 0 0) ''friday''
     (Some (Datetime (Date 9999 12 31) 12 0 0 0)) = Inl OverflowError \<and>
   names_weekday (lower ''friday'') ''friday'' \<and>
   re_search False tonight_pat (lower ''friday'') = None \<and>
   re_search False tomorrow_pat (lower ''friday'') = None \<and>
   weekday (Date 9999 12 31) = 4"
  by code_simp

text \<open>
  C1, amended.  Let the lower-cased text contain none of the words tonight, today,
  tomorrow, and let it name the weekday \<open>wd\<close> (by the name \<open>name\<close> of the table) and no
  other weekday.  Then the outcome of the date extraction is that of adding
  \<open>days_ahead\<close> days to the reference date, where \<open>days_ahead\<close> is
  \<open>(wd - weekday today) mod 7\<close>, and 7 when that is 0, so that it lies between 1 and 7;
  a word next before the name changes nothing, since the statement does not depend on
  it.  When the reference date is 9999-12-24 or earlier, that sum is a date, later than
  the reference date, and it is the extracted date.  For the reference Wednesday
  2025-03-05, at any time of day: next Friday is 2025-03-07, next Saturday 2025-03-08,
  Thursday 2025-03-06, and Wednesday, with or without next, 2025-03-12.  The text
  ``Friday'' gives 2025-03-07 from the Monday, Tuesday, Wednesday and Thursday before
  it, and 2025-03-14 from that Friday, the Saturday and the Sunday; it gives 2024-03-01
  from Monday 2024-02-26, 2025-02-28 from Wednesday 2025-02-26, 2025-01-03 from Monday
  2024-12-30, and so on across the ends of the months of 30 days and of the Februaries
  of 2000 and 2100.
\<close>

theorem C1_weekday_date:
  "(re_search False tonight_pat (lower text) = None \<and>
    re_search False tomorrow_pat (lower text) = None \<and>
    (name, wd) \<in> set WEEKDAY_MAP \<and> names_weekday (lower text) name \<and>
    (\<forall>(name', wd') \<in> set WEEKDAY_MAP. names_weekday (lower text) name' \<longrightarrow> wd' = wd)
    \<longrightarrow> parse_date clock text now =
          returned (add_days (today clock now) (nat (spec_days_ahead (today clock now) wd))) \<and>
        (valid_date (today clock now) \<and> date_less (today clock now) (Date 9999 12 25) \<longrightarrow>
          (\<exists>d. parse_date clock text now = Inr (Some d) \<and>
             add_days (today clock now) (nat (spec_days_ahead (today clock now) wd)) = Inr d \<and>
             date_less (today clock now) d))) \<and>
   1 \<le> spec_days_ahead tday wd \<and> spec_days_ahead tday wd \<le> 7 \<and>
   parse_date clock ''next Friday'' (Some (Datetime (Date 2025 3 5) h mi s us)) =
     Inr (Some (Date 2025 3 7)) \<and>
   parse_date clock ''next Saturday'' (Some (Datetime (Date 2025 3 5) h mi s us)) =
     Inr (Some (Date 2025 3 8)) \<and>
   parse_date clock ''Thursday'' (Some (Datetime (Date 2025 3 5) h mi s us)) =
     Inr (Some (Date 2025 3 6)) \<and>
   parse_date clock ''Wednesday'' (Some (Datetime (Date 2025 3 5) h mi s us)) =
     Inr (Some (Date 2025 3 12)) \<and>
   parse_date clock ''next Wednesday'' (Some (Datetime (Date 2025 3 5) h mi s us)) =
     Inr (Some (Date 2025 3 12)) \<and>
   map (\<lambda>d. parse_date clock ''Friday'' (Some (Datetime d h mi s us)))
     [Date 2025 3 3, Date 2025 3 4, Date 2025 3 5, Date 2025 3 6, Date 2025 3 7, Date 2025 3 8,
      Date 2025 3 9, Date 2024 2 26, Date 2025 2 26, Date 2024 12 30, Date 2025 4 28,
      Date 2100 2 26, Date 2000 2 25, Date 2025 6 27, Date 2025 9 29, Date 2025 11 28] =
     map (\<lambda>d. Inr (Some d))
       [Date 2025 3 7, Date 2025 3 7, Date 2025 3 7, Date 2025 3 7, Date 2025 3 14,
        Date 2025 3 14, Date 2025 3 14, Date 2024 3 1, Date 2025 2 28, Date 2025 1 3,
        Date 2025 5 2, Date 2100 3 5, Date 2000 3 3, Date 2025 7 4, Date 2025 10 3,
        Date 2025 12 5]"
proof (intro conjI impI)
  assume a: "re_search False tonight_pat (lower text) = None \<and>
    re_search False tomorrow_pat (lower text) = None \<and>
    (name, wd) \<in> set WEEKDAY_MAP \<and> names_weekday (lower text) name \<and>
    (\<forall>(name', wd') \<in> set WEEKDAY_MAP. names_weekday (lower text) name' \<longrightarrow> wd' = wd)"
  let ?P = "\<lambda>(name, wd). names_weekday (lower text) name"
  let ?k = "nat (spec_days_ahead (today clock now) wd)"
  from a have "\<exists>x. x \<in> set WEEKDAY_MAP \<and> ?P x" by auto
  then have "find ?P WEEKDAY_MAP \<noteq> None"
    unfolding find_None_iff by simp
  then obtain x where x: "find ?P WEEKDAY_MAP = Some x"
    by (cases "find ?P WEEKDAY_MAP") auto
  then have "x \<in> set WEEKDAY_MAP" "?P x"
    by (auto dest: find_Some_mem)
  with a have "snd x = wd" by (cases x) auto
  with x have "find ?P WEEKDAY_MAP = Some (fst x, wd)" by (cases x) simp
  with a show r: "parse_date clock text now = returned (add_days (today clock now) ?k)"
    by (simp add: parse_date_weekday)
  assume b: "valid_date (today clock now) \<and> date_less (today clock now) (Date 9999 12 25)"
  have k: "0 < ?k" "?k \<le> 7"
    using spec_days_ahead_range [of "today clock now" wd] by auto
  from b k(2) obtain d where d: "add_days (today clock now) ?k = Inr d"
    using add_days_week by blast
  from add_days_less [OF k(1) d] r d
  show "\<exists>d. parse_date clock text now = Inr (Some d) \<and>
      add_days (today clock now) ?k = Inr d \<and> date_less (today clock now) d"
    by (simp add: returned_def)
next
  show "1 \<le> spec_days_ahead tday wd"
    using spec_days_ahead_range by simp
next
  show "spec_days_ahead tday wd \<le> 7"
    using spec_days_ahead_range by simp
next
  show "parse_date clock ''next Friday'' (Some (Datetime (Date 2025 3 5) h mi s us)) =
      Inr (Some (Date 2025 3 7))"
    by code_simp
next
  show "parse_date clock ''next Saturday'' (Some (Datetime (Date 2025 3 5) h mi s us)) =
      Inr (Some (Date 2025 3 8))"
    by code_simp
next
  show "parse_date clock ''Thursday'' (Some (Datetime (Date 2025 3 5) h mi s us)) =
      Inr (Some (Date 2025 3 6))"
    by code_simp
next
  show "parse_date clock ''Wednesday'' (Some (Datetime (Date 2025 3 5) h mi s us)) =
      Inr (Some (Date 2025 3 12))"
    by code_simp
next
  show "parse_date clock ''next Wednesday'' (Some (Datetime (Date 2025 3 5) h mi s us)) =
      Inr (Some (Date 2025 3 12))"
    by code_simp
next
  show "map (\<lambda>d. parse_date clock ''Friday'' (Some (Datetime d h mi s us)))
     [Date 2025 3 3, Date 2025 3 4, Date 2025 3 5, Date 2025 3 6, Date 2025 3 7, Date 2025 3 8,
      Date 2025 3 9, Date 2024 2 26, Date 2025 2 26, Date 2024 12 30, Date 2025 4 28,
      Date 2100 2 26, Date 2000 2 25, Date 2025 6 27, Date 2025 9 29, Date 2025 11 28] =
     map (\<lambda>d. Inr (Some d))
       [Date 2025 3 7, Date 2025 3 7, Date 2025 3 7, Date 2025 3 7, Date 2025 3 14,
        Date 2025 3 14, Date 2025 3 14, Date 2024 3 1, Date 2025 2 28, Date 2025 1 3,
        Date 2025 5 2, Date 2100 3 5, Date 2000 3 3, Date 2025 7 4, Date 2025 10 3,
        Date 2025 12 5]"
    by code_simp
qed

theorem C1_weekday_date_witness:
  "parse_date (Datetime (Date 2000 1 1) 0 0 0 0) ''Dinner on Thursday at 8pm''
     (Some (Datetime (Date 9999 12 24) 12 0 0 0)) = Inr (Some (Date 9999 12 30)) \<and>
   date_less (Date 9999 12 24) (Date 9999 12 30)"
proof -
  let ?text = "''Dinner on Thursday at 8pm''"
  let ?clock = "Datetime (Date 2000 1 1) 0 0 0 0"
  let ?now = "Some (Datetime (Date 9999 12 24) 12 0 0 0)"
  have 1: "re_search False tonight_pat (lower ?text) = None" by code_simp
  have 2: "re_search False tomorrow_pat (lower ?text) = None" by code_simp
  have 3: "(''thursday'', 3) \<in> set WEEKDAY_MAP" by (simp add: WEEKDAY_MAP_def)
  have 4: "names_weekday (lower ?text) ''thursday''" by code_simp
  have 5: "\<forall>(name', wd') \<in> set WEEKDAY_MAP. names_weekday (lower ?text) name' \<longrightarrow> wd' = 3"
    by code_simp
  have 6: "valid_date (today ?clock ?now)" by code_simp
  have 7: "date_less (today ?clock ?now) (Date 9999 12 25)" by code_simp
  have 8: "add_days (today ?clock ?now) (nat (spec_days_ahead (today ?clock ?now) 3)) =
      Inr (Date 9999 12 30)"
    by code_simp
  have 9: "today ?clock ?now = Date 9999 12 24" by (simp add: today_def)
  from C1_weekday_date [of ?text "''thursday''" 3 ?clock ?now, THEN conjunct1, rule_format,
      OF conjI [OF 1 conjI [OF 2 conjI [OF 3 conjI [OF 4 5]]]], THEN conjunct2, rule_format,
      OF conjI [OF 6 7]] 8 9
  show ?thesis by auto
qed

section \<open>Party-size extraction\<close>















subsection \<open>A number of more digits than \<^verbatim>\<open>int()\<close> converts\<close>















section \<open>Exceptions\<close>





















end
